theory Spec2Isabelle
  imports Main
begin

section \<open>Strings\<close>

text \<open>
  A script string is modelled as a list of code units (\<open>string\<close>). Every character the
  program tests for is ASCII, so the model is the same whether the units are read as UTF-8
  bytes or as UTF-16 units: no unit of a non-ASCII character equals an ASCII one.
\<close>

definition upper_letters :: string where
  "upper_letters = ''ABCDEFGHIJKLMNOPQRSTUVWXYZ''"

definition lower_letters :: string where
  "lower_letters = ''abcdefghijklmnopqrstuvwxyz''"

definition toLowerCase_unit :: "char \<Rightarrow> char" where
  "toLowerCase_unit c =
     (case map_of (zip upper_letters lower_letters) c of Some l \<Rightarrow> l | None \<Rightarrow> c)"

text \<open>
  \<open>String.prototype.toLowerCase\<close>, on the letters A to Z. The program only compares the
  result with \<open>"movie"\<close>; no character outside A to Z lower-cases to one of m, o, v, i, e,
  so the comparison is decided by these letters alone.
\<close>

definition toLowerCase :: "string \<Rightarrow> string" where
  "toLowerCase s = map toLowerCase_unit s"

text \<open>
  The character class of the regular expression in \<open>updateWatchlist\<close>
  (\<open>/[\/\?<>\\:\*\|":]/g\<close>), in the order it is written, the colon twice.
\<close>

definition illegal_class :: "char list" where
  "illegal_class =
     [CHR ''/'', CHR ''?'', CHR ''<'', CHR ''>'', CHR 0x5C, CHR '':'', CHR ''*'', CHR ''|'',
      CHR 0x22, CHR '':'']"

text \<open>\<open>show.title.replace(/[...]/g, "_")\<close>: every unit of the class becomes an underscore.\<close>

definition replace_illegal :: "string \<Rightarrow> string" where
  "replace_illegal t = map (\<lambda>c. if c \<in> set illegal_class then CHR ''_'' else c) t"

text \<open>The nine characters the specification lists: \<open>/ \ ? < > : * | "\<close>.\<close>

definition spec_illegal :: "char set" where
  "spec_illegal =
     {CHR ''/'', CHR 0x5C, CHR ''?'', CHR ''<'', CHR ''>'', CHR '':'', CHR ''*'', CHR ''|'',
      CHR 0x22}"

text \<open>Decimal digits of a natural number, as template literals print a count.\<close>

fun show_nat :: "nat \<Rightarrow> string" where
  "show_nat n =
     (if n < 10 then [''0123456789'' ! n]
      else show_nat (n div 10) @ [''0123456789'' ! (n mod 10)])"

declare show_nat.simps [simp del]

text \<open>
  A script number that is an integer or \<open>NaN\<close> (\<open>None\<close>), which is all
  \<open>Date.prototype.getFullYear\<close> returns, and its conversion to a string.
\<close>

type_synonym js_number = "int option"

definition number_to_string :: "js_number \<Rightarrow> string" where
  "number_to_string y =
     (case y of
        None \<Rightarrow> ''NaN''
      | Some n \<Rightarrow> (if n < 0 then ''-'' @ show_nat (nat (- n)) else show_nat (nat n)))"

text \<open>
  A value of static type \<open>string\<close> that may be \<open>null\<close> at run time (\<open>None\<close>), and
  what a template literal prints for it.
\<close>

definition nullable_to_string :: "string option \<Rightarrow> string" where
  "nullable_to_string v = (case v of None \<Rightarrow> ''null'' | Some s \<Rightarrow> s)"

section \<open>The parsed document\<close>

text \<open>
  The result of \<open>DOMParser.parseFromString\<close>: a tree of elements (name, attributes,
  children) and text nodes. The name of an element is the name type selectors compare with.
\<close>

datatype node = Element string "(string \<times> string) list" "node list" | Text string

text \<open>The proper descendants of a node, in document order.\<close>

fun descendants :: "node \<Rightarrow> node list" where
  "descendants (Text s) = []"
| "descendants (Element name attrs kids) = concat (map (\<lambda>k. k # descendants k) kids)"

fun textContent :: "node \<Rightarrow> string" where
  "textContent (Text s) = s"
| "textContent (Element name attrs kids) = concat (map textContent kids)"

text \<open>\<open>getAttribute\<close> is \<open>null\<close> (\<open>None\<close>) when the element has no such attribute.\<close>

fun getAttribute :: "node \<Rightarrow> string \<Rightarrow> string option" where
  "getAttribute (Text s) a = None"
| "getAttribute (Element name attrs kids) a = map_of attrs a"

text \<open>
  The selectors the program uses: a type selector (\<open>item\<close>, \<open>media\:keywords\<close>), a type
  selector with an attribute test (\<open>link[rel="next"]\<close>) and a group of two selectors
  (\<open>media\:thumbnail, thumbnail\<close>).
\<close>

datatype selector = TypeSel string | AttrSel string string string | Either selector selector

fun matches :: "selector \<Rightarrow> node \<Rightarrow> bool" where
  "matches (Either s1 s2) nd = (matches s1 nd \<or> matches s2 nd)"
| "matches sel (Text s) = False"
| "matches (TypeSel n) (Element name attrs kids) = (name = n)"
| "matches (AttrSel n a v) (Element name attrs kids) = (name = n \<and> map_of attrs a = Some v)"

text \<open>\<open>Element.querySelector\<close>: the first matching descendant, or \<open>null\<close>.\<close>

definition querySelector :: "node \<Rightarrow> selector \<Rightarrow> node option" where
  "querySelector nd sel = find (matches sel) (descendants nd)"

text \<open>
  \<open>Document.querySelector\<close> and \<open>Document.querySelectorAll\<close>: the document is given by
  its root element, which is itself a candidate.
\<close>

definition doc_querySelector :: "node \<Rightarrow> selector \<Rightarrow> node option" where
  "doc_querySelector root sel = find (matches sel) (root # descendants root)"

definition doc_querySelectorAll :: "node \<Rightarrow> selector \<Rightarrow> node list" where
  "doc_querySelectorAll root sel = filter (matches sel) (root # descendants root)"

section \<open>Settings, entries and the environment\<close>

record settings =
  feedUrl :: string
  folderPath :: string

definition DEFAULT_SETTINGS :: settings where
  "DEFAULT_SETTINGS = \<lparr>feedUrl = [], folderPath = []\<rparr>"

text \<open>
  The object built for each \<open>item\<close> in \<open>checkFeed\<close>. \<open>updateWatchlist\<close> declares every
  field but \<open>year\<close> a \<open>string\<close>; \<open>poster\<close> holds what \<open>getAttribute\<close> returned, which can
  be \<open>null\<close>. The field \<open>keywords\<close> is \<open>media_keywords\<close> here, the source's name being
  reserved.
\<close>

record entry =
  title :: string
  link :: string
  pubDate :: string
  description :: string
  category :: string
  poster :: "string option"
  media_keywords :: string
  rating :: string
  guid :: string
  year :: js_number

text \<open>
  What an operation raises. The program does not tell errors apart, it prints whatever it
  caught; the three values name the sources the specification lists.
\<close>

datatype error = NetworkError | ParseError | StorageError

text \<open>
  What the program calls and does not define: the network (\<open>fetch\<close> followed by
  \<open>response.text()\<close>, a function of the address), the XML parser, the year of a date
  string (\<open>new Date(s).getFullYear()\<close>) and the host's \<open>normalizePath\<close>. Each is a
  parameter. The first two may raise, so that the \<open>catch\<close> of \<open>checkFeed\<close> has its
  cases; a response with an error status is not a raise of \<open>fetch\<close>, and the
  platform's parser answers a text it cannot parse with an error document.
  \<open>responseStatus\<close> is the status code of the response at an address; the program never
  reads it.
\<close>

record env =
  fetch :: "string \<Rightarrow> error + string"
  parseFromString :: "string \<Rightarrow> error + node"
  getFullYear :: "string \<Rightarrow> js_number"
  normalizePath :: "string \<Rightarrow> string"
  responseStatus :: "string \<Rightarrow> nat"

text \<open>\<open>item.querySelector(sel)?.textContent ?? ""\<close>\<close>

definition text_of :: "node \<Rightarrow> selector \<Rightarrow> string" where
  "text_of item sel = (case querySelector item sel of None \<Rightarrow> [] | Some nd \<Rightarrow> textContent nd)"

text \<open>The body of the callback mapped over the items in \<open>checkFeed\<close>.\<close>

definition read_item :: "env \<Rightarrow> node \<Rightarrow> entry" where
  "read_item e item =
     (let thumbnail = querySelector item (Either (TypeSel ''media:thumbnail'') (TypeSel ''thumbnail''));
          date = text_of item (TypeSel ''pubDate'')
      in \<lparr>title = text_of item (TypeSel ''title''),
          link = text_of item (TypeSel ''link''),
          pubDate = date,
          description = text_of item (TypeSel ''description''),
          category = text_of item (TypeSel ''category''),
          poster = (case thumbnail of Some th \<Rightarrow> getAttribute th ''url'' | None \<Rightarrow> Some []),
          media_keywords = text_of item (TypeSel ''media:keywords''),
          rating = text_of item (TypeSel ''media:rating''),
          guid = text_of item (TypeSel ''guid''),
          year = getFullYear e date\<rparr>)"

section \<open>The vault\<close>

text \<open>
  Everything a run can be observed to do, in the order it does it: requests, console
  output and the successful changes of the vault.
\<close>

datatype event =
    Fetch string
  | ConsoleLog string
  | ConsoleError string error
  | CreateFolder string
  | Create string string
  | Modify string string

text \<open>
  The vault and its surroundings. The document store is outside the program; it is
  modelled as a key-value store with path semantics: a set of folder paths and a map from
  file paths to contents. \<open>faults\<close> is the schedule of input/output failures still to come:
  each asynchronous store call consumes its head, and fails when the head is \<open>True\<close>; the
  empty schedule is a store that no longer fails on its own.
\<close>

record world =
  folders :: "string set"
  files :: "string \<Rightarrow> string option"
  faults :: "bool list"
  trace :: "event list"

definition emit :: "event \<Rightarrow> world \<Rightarrow> world" where
  "emit ev w = w\<lparr>trace := trace w @ [ev]\<rparr>"

text \<open>One store call takes the head of the schedule: \<open>True\<close> means that this call fails.\<close>

definition tick :: "world \<Rightarrow> bool \<times> world" where
  "tick w = (case faults w of [] \<Rightarrow> (False, w) | b # bs \<Rightarrow> (b, w\<lparr>faults := bs\<rparr>))"

text \<open>\<open>await\<close> in sequence: an exception of the first step skips the rest.\<close>

definition and_then ::
  "('e + 'a) \<times> 's \<Rightarrow> ('a \<Rightarrow> 's \<Rightarrow> ('e + 'b) \<times> 's) \<Rightarrow> ('e + 'b) \<times> 's" where
  "and_then r k = (case r of (Inl err, s) \<Rightarrow> (Inl err, s) | (Inr a, s) \<Rightarrow> k a s)"

text \<open>\<open>vault.adapter.exists\<close>: something, folder or file, is at the path.\<close>

definition adapter_exists :: "string \<Rightarrow> world \<Rightarrow> (error + bool) \<times> world" where
  "adapter_exists p w =
     (let (bad, w') = tick w
      in if bad then (Inl StorageError, w')
         else (Inr (p \<in> folders w' \<or> files w' p \<noteq> None), w'))"

text \<open>\<open>vault.createFolder\<close> raises when the path is taken.\<close>

definition createFolder :: "string \<Rightarrow> world \<Rightarrow> (error + unit) \<times> world" where
  "createFolder p w =
     (let (bad, w') = tick w
      in if bad \<or> p \<in> folders w' \<or> files w' p \<noteq> None then (Inl StorageError, w')
         else (Inr (), emit (CreateFolder p) (w'\<lparr>folders := insert p (folders w')\<rparr>)))"

text \<open>
  \<open>vault.getAbstractFileByPath\<close> is synchronous and returns the file or folder at the path,
  or \<open>null\<close>. A handle is the path it stands for; the program casts it to a file handle
  without a test.
\<close>

definition getAbstractFileByPath :: "string \<Rightarrow> world \<Rightarrow> string option" where
  "getAbstractFileByPath p w = (if p \<in> folders w \<or> files w p \<noteq> None then Some p else None)"

text \<open>\<open>vault.create\<close> raises when the path is taken, and returns the new file.\<close>

definition create :: "string \<Rightarrow> string \<Rightarrow> world \<Rightarrow> (error + string) \<times> world" where
  "create p content w =
     (let (bad, w') = tick w
      in if bad \<or> p \<in> folders w' \<or> files w' p \<noteq> None then (Inl StorageError, w')
         else (Inr p, emit (Create p content) (w'\<lparr>files := (files w')(p \<mapsto> content)\<rparr>)))"

text \<open>\<open>vault.modify\<close> replaces the content of a file, and raises when the handle is not a file.\<close>

definition modify :: "string \<Rightarrow> string \<Rightarrow> world \<Rightarrow> (error + unit) \<times> world" where
  "modify h content w =
     (let (bad, w') = tick w
      in if bad \<or> files w' h = None then (Inl StorageError, w')
         else (Inr (), emit (Modify h content) (w'\<lparr>files := (files w')(h \<mapsto> content)\<rparr>)))"

section \<open>Vault synchronization\<close>

definition nl :: string where
  "nl = ''\<newline>''"

text \<open>The front matter assembled in the loop of \<open>updateWatchlist\<close>.\<close>

definition note_content :: "entry \<Rightarrow> string" where
  "note_content s =
     ''---'' @ nl
     @ ''title: '' @ title s @ nl
     @ ''link: '' @ link s @ nl
     @ ''pubDate: '' @ pubDate s @ nl
     @ ''description: '' @ description s @ nl
     @ ''category: '' @ category s @ nl
     @ ''poster: '' @ nullable_to_string (poster s) @ nl
     @ ''keywords: '' @ media_keywords s @ nl
     @ ''rating: '' @ rating s @ nl
     @ ''guid: '' @ guid s @ nl
     @ ''year: '' @ number_to_string (year s) @ nl
     @ ''---'' @ nl"

text \<open>\<open>targetFolderPath\<close> and \<open>filePath\<close> of one entry.\<close>

definition targetFolderPath :: "string \<Rightarrow> string \<Rightarrow> entry \<Rightarrow> string" where
  "targetFolderPath showsFolderPath moviesFolderPath s =
     (if toLowerCase (category s) = ''movie'' then moviesFolderPath else showsFolderPath)"

definition filePath :: "env \<Rightarrow> string \<Rightarrow> string \<Rightarrow> entry \<Rightarrow> string" where
  "filePath e showsFolderPath moviesFolderPath s =
     normalizePath e
       (targetFolderPath showsFolderPath moviesFolderPath s @ ''/''
        @ replace_illegal (title s) @ ''.md'')"

text \<open>
  \<open>getAbstractFileByPath(p)\<close>, then \<open>create(p, "")\<close> when it returned \<open>null\<close>, then
  \<open>modify\<close>: the three statements shared by the loop body and \<open>updateWatchFile\<close>.
\<close>

definition write_file :: "string \<Rightarrow> string \<Rightarrow> world \<Rightarrow> (error + unit) \<times> world" where
  "write_file p content w =
     and_then
       (case getAbstractFileByPath p w of Some f \<Rightarrow> (Inr f, w) | None \<Rightarrow> create p [] w)
       (\<lambda>f w'. modify f content w')"

text \<open>The \<open>for\<close> loop of \<open>updateWatchlist\<close>.\<close>

fun write_notes ::
  "env \<Rightarrow> string \<Rightarrow> string \<Rightarrow> entry list \<Rightarrow> world \<Rightarrow> (error + unit) \<times> world" where
  "write_notes e sp mp [] w = (Inr (), w)"
| "write_notes e sp mp (s # ss) w =
     and_then (write_file (filePath e sp mp s) (note_content s) w)
       (\<lambda>_ w'. write_notes e sp mp ss w')"

definition watchFileContent :: string where
  "watchFileContent =
     ''---'' @ nl
     @ ''cssclasses: cards, cards-cover, cards-2-3, table-max'' @ nl
     @ ''---'' @ nl @ nl
     @ ''```dataview'' @ nl
     @ ''table without id'' @ nl
     @ [CHR 0x09] @ ''('' @ [CHR 0x22] @ ''![]('' @ [CHR 0x22] @ '' + poster + ''
       @ [CHR 0x22] @ '')'' @ [CHR 0x22] @ '') as Poster,'' @ nl
     @ [CHR 0x09] @ ''file.link as Title,'' @ nl
     @ [CHR 0x09] @ ''string(year) as Year,'' @ nl
     @ [CHR 0x09] @ ''pubDate as '' @ [CHR 0x22] @ ''Date Added'' @ [CHR 0x22] @ nl
     @ ''from '' @ [CHR 0x22] @ ''plex/movies'' @ [CHR 0x22] @ nl
     @ ''sort pubDate desc, title asc'' @ nl
     @ ''```'' @ nl"

definition updateWatchFile :: "env \<Rightarrow> string \<Rightarrow> world \<Rightarrow> (error + unit) \<times> world" where
  "updateWatchFile e folder w =
     write_file (normalizePath e (folder @ ''/watch.md'')) watchFileContent w"

text \<open>
  \<open>Promise.all\<close> of the two existence checks: both calls are made, and the first one that
  failed is raised.
\<close>

definition exists_both ::
  "string \<Rightarrow> string \<Rightarrow> world \<Rightarrow> (error + bool \<times> bool) \<times> world" where
  "exists_both p q w =
     (let (r0, w0) = adapter_exists p w; (r1, w1) = adapter_exists q w0
      in (case r0 of
            Inl err \<Rightarrow> Inl err
          | Inr b0 \<Rightarrow> (case r1 of Inl err \<Rightarrow> Inl err | Inr b1 \<Rightarrow> Inr (b0, b1)), w1))"

text \<open>The \<open>try\<close> block of \<open>updateWatchlist\<close>.\<close>

definition updateWatchlist_try ::
  "env \<Rightarrow> entry list \<Rightarrow> string \<Rightarrow> world \<Rightarrow> (error + unit) \<times> world" where
  "updateWatchlist_try e shows folder w =
     (let showsFolderPath = normalizePath e (folder @ ''/shows'');
          moviesFolderPath = normalizePath e (folder @ ''/movies'')
      in and_then (exists_both showsFolderPath moviesFolderPath w) (\<lambda>foldersExist w0.
         and_then (if \<not> fst foldersExist then createFolder showsFolderPath w0 else (Inr (), w0)) (\<lambda>_ w1.
         and_then (if \<not> snd foldersExist then createFolder moviesFolderPath w1 else (Inr (), w1)) (\<lambda>_ w2.
         and_then (write_notes e showsFolderPath moviesFolderPath shows w2) (\<lambda>_ w3.
         updateWatchFile e folder w3)))))"

text \<open>\<open>updateWatchlist\<close>: the block, and the \<open>catch\<close> that logs what it raised.\<close>

definition updateWatchlist ::
  "env \<Rightarrow> entry list \<Rightarrow> string \<Rightarrow> world \<Rightarrow> (error + unit) \<times> world" where
  "updateWatchlist e shows folder w =
     (case updateWatchlist_try e shows folder w of
        (Inl err, w') \<Rightarrow> (Inr (), emit (ConsoleError ''Error updating watchlist file:'' err) w')
      | (Inr u, w') \<Rightarrow> (Inr (), w'))"

section \<open>Feed ingestion\<close>

text \<open>\<open>url || feedUrl\<close>: an absent or empty argument gives the configured address.\<close>

definition currentUrl :: "settings \<Rightarrow> string option \<Rightarrow> string" where
  "currentUrl st url =
     (case url of None \<Rightarrow> feedUrl st | Some u \<Rightarrow> if u = [] then feedUrl st else u)"

text \<open>
  The address \<open>checkFeed\<close> recurses on: the \<open>href\<close> of the first \<open>link[rel="next"]\<close>, when
  there is one and it is neither \<open>null\<close> nor empty.
\<close>

definition nextUrl :: "node \<Rightarrow> string option" where
  "nextUrl doc =
     (case doc_querySelector doc (AttrSel ''link'' ''rel'' ''next'') of
        None \<Rightarrow> None
      | Some nextLink \<Rightarrow>
          (case getAttribute nextLink ''href'' of
             None \<Rightarrow> None
           | Some u \<Rightarrow> if u = [] then None else Some u))"

text \<open>The entries of a page: the callback mapped over \<open>doc.querySelectorAll("item")\<close>.\<close>

definition page_entries :: "env \<Rightarrow> node \<Rightarrow> entry list" where
  "page_entries e doc = map (read_item e) (doc_querySelectorAll doc (TypeSel ''item''))"

text \<open>The two lines \<open>checkFeed\<close> prints with \<open>console.log\<close>.\<close>

definition count_line :: "node \<Rightarrow> event" where
  "count_line doc =
     ConsoleLog (''Number of items in the RSS feed: ''
                 @ show_nat (length (doc_querySelectorAll doc (TypeSel ''item''))))"

definition next_line :: "string \<Rightarrow> event" where
  "next_line u = ConsoleLog (''Next URL: '' @ u)"

text \<open>
  The \<open>try\<close> block of \<open>checkFeed\<close> up to the recursive call: request, parse, count, read
  the items, synchronize them, look for the next page.
\<close>

definition checkFeed_page ::
  "env \<Rightarrow> settings \<Rightarrow> string \<Rightarrow> world \<Rightarrow> (error + string option) \<times> world" where
  "checkFeed_page e st u w =
     (let w0 = emit (Fetch u) w
      in case fetch e u of
           Inl err \<Rightarrow> (Inl err, w0)
         | Inr text \<Rightarrow>
             (case parseFromString e text of
                Inl err \<Rightarrow> (Inl err, w0)
              | Inr doc \<Rightarrow>
                  (let w1 = emit (count_line doc) w0;
                       shows = page_entries e doc
                   in and_then (updateWatchlist e shows (folderPath st) w1)
                        (\<lambda>_ w2. (Inr (nextUrl doc), w2)))))"

text \<open>
  \<open>checkFeed\<close>. The recursion follows the feed's own links, which may never end, so the
  model counts calls down from a bound: \<open>None\<close> is a run that needs more calls than the
  bound. The \<open>catch\<close> receives whatever the block or the recursive call raised.
\<close>

fun checkFeed ::
  "nat \<Rightarrow> env \<Rightarrow> settings \<Rightarrow> string option \<Rightarrow> world \<Rightarrow> ((error + unit) \<times> world) option" where
  "checkFeed 0 e st url w = None"
| "checkFeed (Suc n) e st url w =
     (let u = currentUrl st url
      in if u = [] then Some (Inr (), w)
         else
           (case
              (case checkFeed_page e st u w of
                 (Inl err, w') \<Rightarrow> Some (Inl err, w')
               | (Inr None, w') \<Rightarrow> Some (Inr (), w')
               | (Inr (Some next), w') \<Rightarrow>
                   checkFeed n e st (Some next) (emit (next_line next) w'))
            of
              None \<Rightarrow> None
            | Some (Inl err, w') \<Rightarrow>
                Some (Inr (), emit (ConsoleError ''Error fetching or parsing RSS feed:'' err) w')
            | Some (Inr v, w') \<Rightarrow> Some (Inr (), w')))"

section \<open>Observations\<close>

text \<open>The addresses requested so far, in order.\<close>

definition requests :: "world \<Rightarrow> string list" where
  "requests w = concat (map (\<lambda>ev. case ev of Fetch u \<Rightarrow> [u] | _ \<Rightarrow> []) (trace w))"

text \<open>Something, folder or file, is at the path: what \<open>adapter.exists\<close> answers.\<close>

definition taken :: "string \<Rightarrow> world \<Rightarrow> bool" where
  "taken p w = (p \<in> folders w \<or> files w p \<noteq> None)"

text \<open>The vault once a folder has been created unless its path was taken.\<close>

definition ensure_folder :: "string \<Rightarrow> world \<Rightarrow> world" where
  "ensure_folder p w =
     (if taken p w then w else emit (CreateFolder p) (w\<lparr>folders := insert p (folders w)\<rparr>))"

text \<open>
  The file map after the notes of a list of entries have been written in order, a later
  entry replacing an earlier one with the same file path.
\<close>

definition put_notes ::
  "env \<Rightarrow> string \<Rightarrow> string \<Rightarrow> entry list \<Rightarrow> (string \<Rightarrow> string option) \<Rightarrow> (string \<Rightarrow> string option)" where
  "put_notes e sp mp ss m = fold (\<lambda>s m. m(filePath e sp mp s \<mapsto> note_content s)) ss m"

section \<open>The classifier of the specification\<close>

text \<open>
  The specification's \<open>classify\<close>, in its own words: case-insensitive equality of the
  category with \<open>"movie"\<close> gives \<open>"movie"\<close>, every other value gives \<open>"series"\<close>. Two
  characters are equal up to case when they are equal or are the two cases of one letter.
\<close>

definition same_letter :: "char \<Rightarrow> char \<Rightarrow> bool" where
  "same_letter a b =
     (a = b \<or> (a, b) \<in> set (zip upper_letters lower_letters)
            \<or> (b, a) \<in> set (zip upper_letters lower_letters))"

definition equal_ignoring_case :: "string \<Rightarrow> string \<Rightarrow> bool" where
  "equal_ignoring_case xs ys = list_all2 same_letter xs ys"

definition classify_spec :: "entry \<Rightarrow> string" where
  "classify_spec s = (if equal_ignoring_case (category s) ''movie'' then ''movie'' else ''series'')"

section \<open>An example feed and vault\<close>

text \<open>
  The host's path normalizer as its documentation describes it: a run of slashes and
  backslashes becomes one slash, slashes at either end are dropped, and the empty path is
  the root. It serves the examples only; every general theorem below holds for any
  normalizer.
\<close>

definition is_separator :: "char \<Rightarrow> bool" where
  "is_separator c = (c = CHR ''/'' \<or> c = CHR 0x5C)"

fun squeeze :: "string \<Rightarrow> string" where
  "squeeze (a # b # cs) =
     (if is_separator a \<and> is_separator b then squeeze (b # cs)
      else (if is_separator a then CHR ''/'' else a) # squeeze (b # cs))"
| "squeeze [a] = [if is_separator a then CHR ''/'' else a]"
| "squeeze [] = []"

definition host_normalizePath :: "string \<Rightarrow> string" where
  "host_normalizePath p =
     (let q = rev (dropWhile is_separator (rev (dropWhile is_separator (squeeze p))))
      in if q = [] then ''/'' else q)"

definition empty_vault :: world where
  "empty_vault = \<lparr>folders = {}, files = Map.empty, faults = [], trace = []\<rparr>"


definition dune_item :: node where
  "dune_item =
     Element ''item'' []
       [Element ''title'' [] [Text ''Dune: Part Two''],
        Element ''category'' [] [Text ''Movie''],
        Element ''pubDate'' [] [Text ''Fri, 01 Mar 2024'']]"

definition severance_item :: node where
  "severance_item =
     Element ''item'' []
       [Element ''title'' [] [Text ''Severance''],
        Element ''category'' [] [Text ''show'']]"

definition alien_item :: node where
  "alien_item =
     Element ''item'' []
       [Element ''title'' [] [Text ''Alien''],
        Element ''category'' [] [Text ''movie'']]"

text \<open>An item whose thumbnail element has no \<open>url\<close> attribute.\<close>

definition thumbnail_without_url :: node where
  "thumbnail_without_url =
     Element ''item'' []
       [Element ''title'' [] [Text ''Alien''],
        Element ''media:thumbnail'' [(''width'', ''200'')] []]"

text \<open>Three pages, the first two with a \<open>link[rel="next"]\<close>.\<close>

definition page_one :: node where
  "page_one =
     Element ''rss'' []
       [Element ''channel'' []
          [Element ''link'' [(''rel'', ''next''), (''href'', ''feed?page=2'')] [], dune_item]]"

definition page_two :: node where
  "page_two =
     Element ''rss'' []
       [Element ''channel'' []
          [Element ''link'' [(''rel'', ''next''), (''href'', ''feed?page=3'')] [],
           severance_item]]"

definition page_three :: node where
  "page_three = Element ''rss'' [] [Element ''channel'' [] [alien_item]]"

text \<open>
  What the platform's XML parser answers for a text that is not well-formed: it does not
  raise, it returns an error document, whose root element is \<open>parsererror\<close>.
\<close>

definition parser_error_document :: node where
  "parser_error_document = Element ''parsererror'' [] [Text ''error on line 1 at column 5'']"

text \<open>
  A network that serves the three pages and, at \<open>broken\<close>, a text that is not
  well-formed; a second one that only serves the first page.
\<close>

definition example_env :: env where
  "example_env =
     \<lparr>fetch = (\<lambda>u. if u = ''feed'' then Inr ''one''
                  else if u = ''feed?page=2'' then Inr ''two''
                  else if u = ''feed?page=3'' then Inr ''three''
                  else if u = ''broken'' then Inr ''<rss''
                  else Inl NetworkError),
      parseFromString = (\<lambda>t. if t = ''one'' then Inr page_one
                  else if t = ''two'' then Inr page_two
                  else if t = ''three'' then Inr page_three
                  else Inr parser_error_document),
      getFullYear = (\<lambda>d. if d = ''Fri, 01 Mar 2024'' then Some 2024 else None),
      normalizePath = host_normalizePath,
      responseStatus = (\<lambda>u. 200)\<rparr>"




definition plex_settings :: settings where
  "plex_settings = \<lparr>feedUrl = ''feed'', folderPath = ''plex''\<rparr>"

definition broken_settings :: settings where
  "broken_settings = \<lparr>feedUrl = ''broken'', folderPath = ''plex''\<rparr>"

text \<open>A feed address and no root folder.\<close>

definition root_settings :: settings where
  "root_settings = \<lparr>feedUrl = ''feed?page=3'', folderPath = []\<rparr>"

definition example_entries :: "entry list" where
  "example_entries = [read_item example_env dune_item, read_item example_env severance_item]"

section \<open>What no store call changes\<close>

lemma emit_fields [simp]:
  "folders (emit ev w) = folders w"
  "files (emit ev w) = files w"
  "faults (emit ev w) = faults w"
  "trace (emit ev w) = trace w @ [ev]"
  by (simp_all add: emit_def)

lemma requests_emit [simp]:
  "requests (emit ev w) = requests w @ (case ev of Fetch u \<Rightarrow> [u] | _ \<Rightarrow> [])"
  by (simp add: requests_def)

lemma requests_update [simp]:
  "requests (w\<lparr>folders := F\<rparr>) = requests w"
  "requests (w\<lparr>files := m\<rparr>) = requests w"
  "requests (w\<lparr>faults := fs\<rparr>) = requests w"
  by (simp_all add: requests_def)

lemma tick_frame:
  "folders (snd (tick w)) = folders w"
  "files (snd (tick w)) = files w"
  "trace (snd (tick w)) = trace w"
  "requests (snd (tick w)) = requests w"
  by (simp_all add: tick_def split: list.splits)

lemma tick_nofault [simp]: "faults w = [] \<Longrightarrow> tick w = (False, w)"
  by (simp add: tick_def)

lemma requests_and_then:
  assumes "requests (snd r) = q"
    and "\<And>a s. requests s = q \<Longrightarrow> requests (snd (k a s)) = q"
  shows "requests (snd (and_then r k)) = q"
  using assms by (cases r) (auto simp: and_then_def split: sum.splits)

lemma requests_adapter_exists: "requests (snd (adapter_exists p w)) = requests w"
  using tick_frame(4) [of w] by (cases "tick w") (auto simp: adapter_exists_def)

lemma requests_createFolder: "requests (snd (createFolder p w)) = requests w"
  using tick_frame(4) [of w] by (cases "tick w") (auto simp: createFolder_def)

lemma requests_create: "requests (snd (create p c w)) = requests w"
  using tick_frame(4) [of w] by (cases "tick w") (auto simp: create_def)

lemma requests_modify: "requests (snd (modify p c w)) = requests w"
  using tick_frame(4) [of w] by (cases "tick w") (auto simp: modify_def)

lemma requests_write_file: "requests (snd (write_file p c w)) = requests w"
  unfolding write_file_def
  by (rule requests_and_then) (simp_all add: requests_create requests_modify split: option.splits)

lemma requests_write_notes: "requests (snd (write_notes e sp mp ss w)) = requests w"
proof (induction ss arbitrary: w)
  case Nil
  show ?case by simp
next
  case (Cons s ss)
  show ?case
    unfolding write_notes.simps
    by (rule requests_and_then) (simp_all add: requests_write_file Cons.IH)
qed

lemma requests_exists_both: "requests (snd (exists_both p q w)) = requests w"
  using requests_adapter_exists [of p w] requests_adapter_exists [of q "snd (adapter_exists p w)"]
  by (cases "adapter_exists p w"; cases "adapter_exists q (snd (adapter_exists p w))")
     (simp add: exists_both_def)

lemma requests_updateWatchlist_try:
  "requests (snd (updateWatchlist_try e shows folder w)) = requests w"
  unfolding updateWatchlist_try_def Let_def
  apply (rule requests_and_then, rule requests_exists_both)
  apply (rule requests_and_then, simp add: requests_createFolder)
  apply (rule requests_and_then, simp add: requests_createFolder)
  apply (rule requests_and_then, simp add: requests_write_notes)
  apply (simp add: updateWatchFile_def requests_write_file)
  done

lemma updateWatchlist_returns: "fst (updateWatchlist e shows folder w) = Inr ()"
  by (simp add: updateWatchlist_def split: prod.splits sum.splits)

lemma requests_updateWatchlist:
  "requests (snd (updateWatchlist e shows folder w)) = requests w"
  using requests_updateWatchlist_try [of e "shows" folder w]
  by (auto simp: updateWatchlist_def split: prod.splits sum.splits)

lemma updateWatchlist_state:
  "files (snd (updateWatchlist e shows folder w)) = files (snd (updateWatchlist_try e shows folder w))"
  "folders (snd (updateWatchlist e shows folder w)) = folders (snd (updateWatchlist_try e shows folder w))"
  "faults (snd (updateWatchlist e shows folder w)) = faults (snd (updateWatchlist_try e shows folder w))"
  by (simp_all add: updateWatchlist_def split: prod.splits sum.splits)

lemma updateWatchlist_success:
  "fst (updateWatchlist_try e shows folder w) = Inr () \<Longrightarrow>
   updateWatchlist_try e shows folder w = (Inr (), snd (updateWatchlist e shows folder w))"
  by (cases "updateWatchlist_try e shows folder w") (simp add: updateWatchlist_def)

section \<open>A store that does not fail on its own\<close>

lemma adapter_exists_nofault:
  "faults w = [] \<Longrightarrow> adapter_exists p w = (Inr (p \<in> folders w \<or> files w p \<noteq> None), w)"
  by (simp add: adapter_exists_def)

lemma exists_both_nofault:
  "faults w = [] \<Longrightarrow>
   exists_both p q w
     = (Inr (p \<in> folders w \<or> files w p \<noteq> None, q \<in> folders w \<or> files w q \<noteq> None), w)"
  by (simp add: exists_both_def adapter_exists_nofault)

lemma createFolder_nofault:
  "faults w = [] \<Longrightarrow> p \<notin> folders w \<Longrightarrow> files w p = None \<Longrightarrow>
   createFolder p w = (Inr (), emit (CreateFolder p) (w\<lparr>folders := insert p (folders w)\<rparr>))"
  by (simp add: createFolder_def)

lemma createFolder_taken:
  "faults w = [] \<Longrightarrow> p \<in> folders w \<or> files w p \<noteq> None \<Longrightarrow>
   createFolder p w = (Inl StorageError, w)"
  by (auto simp add: createFolder_def)

lemma write_file_blocked:
  "faults w = [] \<Longrightarrow> files w p = None \<Longrightarrow> p \<in> folders w \<Longrightarrow>
   write_file p c w = (Inl StorageError, w)"
  by (simp add: write_file_def getAbstractFileByPath_def and_then_def modify_def)

lemma write_file_nofault:
  assumes "faults w = []" and "files w p \<noteq> None \<or> p \<notin> folders w"
  shows "fst (write_file p c w) = Inr ()"
    and "files (snd (write_file p c w)) = (files w)(p \<mapsto> c)"
    and "folders (snd (write_file p c w)) = folders w"
    and "faults (snd (write_file p c w)) = []"
    and "trace (snd (write_file p c w))
           = trace w @ (if files w p = None then [Create p []] else []) @ [Modify p c]"
  using assms
  by (auto simp: write_file_def getAbstractFileByPath_def and_then_def modify_def create_def)

lemma write_file_success:
  assumes "faults w = []" and "write_file p c w = (Inr (), w')"
  shows "files w' = (files w)(p \<mapsto> c)" "folders w' = folders w" "faults w' = []"
proof -
  have ok: "files w p \<noteq> None \<or> p \<notin> folders w"
    using assms write_file_blocked [of w p c] by auto
  show "files w' = (files w)(p \<mapsto> c)" "folders w' = folders w" "faults w' = []"
    using write_file_nofault(2,3,4) [OF assms(1) ok, of c] assms(2) by simp_all
qed

lemma write_file_outcome:
  assumes "faults w = []" and "write_file p c w = (r, w')"
  shows "(r = Inl StorageError \<and> w' = w \<and> files w p = None \<and> p \<in> folders w)
         \<or> (r = Inr () \<and> (files w p \<noteq> None \<or> p \<notin> folders w))"
proof (cases "files w p = None \<and> p \<in> folders w")
  case True
  then show ?thesis
    using assms write_file_blocked [of w p c] by simp
next
  case False
  then have ok: "files w p \<noteq> None \<or> p \<notin> folders w" by simp
  show ?thesis
    using write_file_nofault(1) [OF assms(1) ok, of c] assms(2) ok by simp
qed

section \<open>The notes of a list of entries\<close>

lemma put_notes_simps [simp]:
  "put_notes e sp mp [] m = m"
  "put_notes e sp mp (s # ss) m = put_notes e sp mp ss (m(filePath e sp mp s \<mapsto> note_content s))"
  by (simp_all add: put_notes_def)

lemma put_notes_add: "put_notes e sp mp ss m = m ++ put_notes e sp mp ss Map.empty"
proof (induction ss arbitrary: m)
  case Nil
  show ?case by simp
next
  case (Cons s ss)
  have "put_notes e sp mp (s # ss) m
          = put_notes e sp mp ss (m(filePath e sp mp s \<mapsto> note_content s))"
    by simp
  also have "\<dots> = m(filePath e sp mp s \<mapsto> note_content s) ++ put_notes e sp mp ss Map.empty"
    by (rule Cons.IH)
  also have "\<dots> = m ++ ([filePath e sp mp s \<mapsto> note_content s] ++ put_notes e sp mp ss Map.empty)"
    by (simp add: map_add_assoc [symmetric])
  also have "[filePath e sp mp s \<mapsto> note_content s] ++ put_notes e sp mp ss Map.empty
               = put_notes e sp mp ss [filePath e sp mp s \<mapsto> note_content s]"
    by (rule Cons.IH [symmetric])
  also have "\<dots> = put_notes e sp mp (s # ss) Map.empty"
    by simp
  finally show ?case .
qed

lemma put_notes_defined:
  "m p \<noteq> None \<Longrightarrow> put_notes e sp mp ss m p \<noteq> None"
  by (induction ss arbitrary: m) auto

lemma put_notes_covers:
  "s \<in> set ss \<Longrightarrow> put_notes e sp mp ss m (filePath e sp mp s) \<noteq> None"
proof (induction ss arbitrary: m)
  case Nil
  then show ?case by simp
next
  case (Cons a ss)
  show ?case
  proof (cases "s = a")
    case True
    then show ?thesis by (simp add: put_notes_defined)
  next
    case False
    with Cons show ?thesis by simp
  qed
qed

lemma put_notes_dom: "dom m \<subseteq> dom (put_notes e sp mp ss m)"
  using put_notes_defined [of m _ e sp mp ss] by (auto simp: dom_def)

lemma put_notes_twice:
  "put_notes e sp mp ss (put_notes e sp mp ss m) = put_notes e sp mp ss m"
proof -
  let ?X = "put_notes e sp mp ss Map.empty"
  have "(m ++ ?X) ++ ?X = m ++ ?X"
    by (rule ext) (simp add: map_add_def split: option.splits)
  then show ?thesis
    using put_notes_add [of e sp mp ss m] put_notes_add [of e sp mp ss "m ++ ?X"] by simp
qed

lemma put_notes_append:
  "put_notes e sp mp (xs @ ys) m = put_notes e sp mp ys (put_notes e sp mp xs m)"
  by (induction xs arbitrary: m) simp_all

lemma put_notes_index:
  "(put_notes e sp mp ss (m(wp \<mapsto> t)))(wp \<mapsto> t) = (put_notes e sp mp ss m)(wp \<mapsto> t)"
proof -
  let ?X = "put_notes e sp mp ss Map.empty"
  have "((m(wp \<mapsto> t)) ++ ?X)(wp \<mapsto> t) = (m ++ ?X)(wp \<mapsto> t)"
    by (rule ext) (simp add: map_add_def split: option.splits)
  then show ?thesis
    using put_notes_add [of e sp mp ss m] put_notes_add [of e sp mp ss "m(wp \<mapsto> t)"] by simp
qed

text \<open>Writing the notes and the index a second time changes no file.\<close>

lemma rewrite_same:
  "(put_notes e sp mp ss ((put_notes e sp mp ss m)(wp \<mapsto> t)))(wp \<mapsto> t)
     = (put_notes e sp mp ss m)(wp \<mapsto> t)"
proof -
  let ?X = "put_notes e sp mp ss Map.empty"
  have "(((m ++ ?X)(wp \<mapsto> t)) ++ ?X)(wp \<mapsto> t) = (m ++ ?X)(wp \<mapsto> t)"
    by (rule ext) (simp add: map_add_def split: option.splits)
  then show ?thesis
    using put_notes_add [of e sp mp ss m] put_notes_add [of e sp mp ss "(m ++ ?X)(wp \<mapsto> t)"]
    by simp
qed

section \<open>The loop over the entries\<close>

lemma write_notes_append:
  "write_notes e sp mp (xs @ ys) w
     = and_then (write_notes e sp mp xs w) (\<lambda>_ w'. write_notes e sp mp ys w')"
proof (induction xs arbitrary: w)
  case Nil
  show ?case by (simp add: and_then_def)
next
  case (Cons x xs)
  show ?case
    by (cases "write_file (filePath e sp mp x) (note_content x) w")
       (simp add: and_then_def Cons.IH split: sum.splits)
qed

lemma write_notes_success:
  "faults w = [] \<Longrightarrow> write_notes e sp mp ss w = (Inr (), w') \<Longrightarrow>
   files w' = put_notes e sp mp ss (files w) \<and> folders w' = folders w \<and> faults w' = []"
proof (induction ss arbitrary: w)
  case Nil
  then show ?case by simp
next
  case (Cons s ss)
  obtain r w1 where step: "write_file (filePath e sp mp s) (note_content s) w = (r, w1)"
    by (cases "write_file (filePath e sp mp s) (note_content s) w")
  with Cons.prems(2) have r: "r = Inr ()" and rest: "write_notes e sp mp ss w1 = (Inr (), w')"
    by (auto simp: and_then_def split: sum.splits)
  from write_file_success [OF Cons.prems(1) step [unfolded r]]
  have w1: "files w1 = (files w)(filePath e sp mp s \<mapsto> note_content s)"
    "folders w1 = folders w" "faults w1 = []" .
  have "files w' = put_notes e sp mp ss (files w1)" "folders w' = folders w1" "faults w' = []"
    using Cons.IH [OF w1(3) rest] by blast+
  then show ?case by (simp add: w1)
qed

lemma write_notes_rewrite:
  "faults w = [] \<Longrightarrow> \<forall>s \<in> set ss. files w (filePath e sp mp s) \<noteq> None \<Longrightarrow>
   \<exists>w'. write_notes e sp mp ss w = (Inr (), w')"
proof (induction ss arbitrary: w)
  case Nil
  then show ?case by simp
next
  case (Cons s ss)
  let ?p = "filePath e sp mp s" and ?c = "note_content s"
  have ok: "files w ?p \<noteq> None \<or> ?p \<notin> folders w"
    using Cons.prems(2) by simp
  obtain w1 where step: "write_file ?p ?c w = (Inr (), w1)"
    using write_file_nofault(1) [OF Cons.prems(1) ok, of ?c]
    by (cases "write_file ?p ?c w") auto
  from write_file_success [OF Cons.prems(1) step]
  have w1: "files w1 = (files w)(?p \<mapsto> ?c)" "faults w1 = []" by simp_all
  have "\<forall>s \<in> set ss. files w1 (filePath e sp mp s) \<noteq> None"
    using Cons.prems(2) w1(1) by simp
  from Cons.IH [OF w1(2) this] obtain w' where "write_notes e sp mp ss w1 = (Inr (), w')" ..
  with step show ?case by (simp add: and_then_def)
qed

lemma write_notes_rewrite_trace:
  "faults w = [] \<Longrightarrow> \<forall>s \<in> set ss. files w (filePath e sp mp s) \<noteq> None \<Longrightarrow>
   write_notes e sp mp ss w = (Inr (), w') \<Longrightarrow>
   trace w' = trace w @ map (\<lambda>s. Modify (filePath e sp mp s) (note_content s)) ss"
proof (induction ss arbitrary: w)
  case Nil
  then show ?case by simp
next
  case (Cons s ss)
  let ?p = "filePath e sp mp s" and ?c = "note_content s"
  have ok: "files w ?p \<noteq> None \<or> ?p \<notin> folders w"
    using Cons.prems(2) by simp
  obtain w1 where step: "write_file ?p ?c w = (Inr (), w1)"
    using write_file_nofault(1) [OF Cons.prems(1) ok, of ?c]
    by (cases "write_file ?p ?c w") auto
  from write_file_success [OF Cons.prems(1) step]
  have w1: "files w1 = (files w)(?p \<mapsto> ?c)" "faults w1 = []" by simp_all
  have t1: "trace w1 = trace w @ [Modify ?p ?c]"
    using write_file_nofault(5) [OF Cons.prems(1) ok, of ?c] step Cons.prems(2) by simp
  have all: "\<forall>s \<in> set ss. files w1 (filePath e sp mp s) \<noteq> None"
    using Cons.prems(2) w1(1) by simp
  have rest: "write_notes e sp mp ss w1 = (Inr (), w')"
    using Cons.prems(3) step by (simp add: and_then_def)
  show ?case
    using Cons.IH [OF w1(2) all rest] t1 by simp
qed

lemma write_notes_unblocked:
  "faults w = [] \<Longrightarrow>
   \<forall>s \<in> set ss. files w (filePath e sp mp s) \<noteq> None \<or> filePath e sp mp s \<notin> folders w \<Longrightarrow>
   \<exists>w'. write_notes e sp mp ss w = (Inr (), w')"
proof (induction ss arbitrary: w)
  case Nil
  then show ?case by simp
next
  case (Cons s ss)
  let ?p = "filePath e sp mp s" and ?c = "note_content s"
  have ok: "files w ?p \<noteq> None \<or> ?p \<notin> folders w"
    using Cons.prems(2) by simp
  obtain w1 where step: "write_file ?p ?c w = (Inr (), w1)"
    using write_file_nofault(1) [OF Cons.prems(1) ok, of ?c]
    by (cases "write_file ?p ?c w") auto
  from write_file_success [OF Cons.prems(1) step]
  have w1: "files w1 = (files w)(?p \<mapsto> ?c)" "folders w1 = folders w" "faults w1 = []"
    by simp_all
  have "\<forall>s \<in> set ss. files w1 (filePath e sp mp s) \<noteq> None \<or> filePath e sp mp s \<notin> folders w1"
    using Cons.prems(2) w1(1,2) by simp
  from Cons.IH [OF w1(3) this] obtain w' where "write_notes e sp mp ss w1 = (Inr (), w')" ..
  with step show ?case by (simp add: and_then_def)
qed

lemma write_notes_stops:
  "faults w = [] \<Longrightarrow> write_notes e sp mp ss w = (Inl err, w') \<Longrightarrow>
   \<exists>pre s post. ss = pre @ s # post \<and> write_notes e sp mp pre w = (Inr (), w')
      \<and> files w' (filePath e sp mp s) = None \<and> filePath e sp mp s \<in> folders w'
      \<and> err = StorageError"
proof (induction ss arbitrary: w)
  case Nil
  then show ?case by simp
next
  case (Cons a ss)
  let ?p = "filePath e sp mp a" and ?c = "note_content a"
  obtain r w1 where step: "write_file ?p ?c w = (r, w1)"
    by (cases "write_file ?p ?c w")
  from write_file_outcome [OF Cons.prems(1) step]
  show ?case
  proof
    assume blocked: "r = Inl StorageError \<and> w1 = w \<and> files w ?p = None \<and> ?p \<in> folders w"
    then have "w' = w" "err = StorageError"
      using Cons.prems(2) step by (simp_all add: and_then_def)
    then have "a # ss = [] @ a # ss \<and> write_notes e sp mp [] w = (Inr (), w')
      \<and> files w' ?p = None \<and> ?p \<in> folders w' \<and> err = StorageError"
      using blocked by simp
    then show ?thesis by blast
  next
    assume went: "r = Inr () \<and> (files w ?p \<noteq> None \<or> ?p \<notin> folders w)"
    then have step': "write_file ?p ?c w = (Inr (), w1)" using step by simp
    have rest: "write_notes e sp mp ss w1 = (Inl err, w')"
      using Cons.prems(2) step' by (simp add: and_then_def)
    have "faults w1 = []"
      using write_file_success(3) [OF Cons.prems(1) step'] .
    from Cons.IH [OF this rest] obtain pre s post where
      "ss = pre @ s # post" "write_notes e sp mp pre w1 = (Inr (), w')"
      "files w' (filePath e sp mp s) = None" "filePath e sp mp s \<in> folders w'"
      "err = StorageError"
      by blast
    then have "a # ss = (a # pre) @ s # post \<and> write_notes e sp mp (a # pre) w = (Inr (), w')
      \<and> files w' (filePath e sp mp s) = None \<and> filePath e sp mp s \<in> folders w'
      \<and> err = StorageError"
      using step' by (simp add: and_then_def)
    then show ?thesis by blast
  qed
qed

text \<open>Running the loop again, from what a first pass over the same entries left.\<close>

lemma write_notes_again:
  assumes nofault: "faults w = []"
    and first: "write_notes e sp mp ss w = (r, w1)"
    and v: "faults v = []" "files v = files w1" "folders v = folders w1"
  shows "\<exists>v'. write_notes e sp mp ss v = (r, v') \<and> files v' = files v \<and> folders v' = folders v
           \<and> faults v' = []"
proof (cases r)
  case (Inr u)
  then have first': "write_notes e sp mp ss w = (Inr (), w1)" using first by simp
  have w1: "files w1 = put_notes e sp mp ss (files w)"
    using write_notes_success [OF nofault first'] by simp
  have "\<forall>s \<in> set ss. files v (filePath e sp mp s) \<noteq> None"
    using put_notes_covers [of _ ss e sp mp "files w"] by (simp add: v w1)
  from write_notes_rewrite [OF v(1) this] obtain v' where
    again: "write_notes e sp mp ss v = (Inr (), v')" ..
  have "files v' = put_notes e sp mp ss (files v)" "folders v' = folders v" "faults v' = []"
    using write_notes_success [OF v(1) again] by simp_all
  then have "files v' = files v" "folders v' = folders v" "faults v' = []"
    by (simp_all add: v w1 put_notes_twice)
  with again Inr show ?thesis by simp
next
  case (Inl err)
  then have "write_notes e sp mp ss w = (Inl err, w1)" using first by simp
  from write_notes_stops [OF nofault this] obtain pre s post where
    ss: "ss = pre @ s # post" and pre: "write_notes e sp mp pre w = (Inr (), w1)"
    and blocked: "files w1 (filePath e sp mp s) = None" "filePath e sp mp s \<in> folders w1"
    and err: "err = StorageError"
    by blast
  have w1: "files w1 = put_notes e sp mp pre (files w)"
    using write_notes_success [OF nofault pre] by simp
  have "\<forall>s \<in> set pre. files v (filePath e sp mp s) \<noteq> None"
    using put_notes_covers [of _ pre e sp mp "files w"] by (simp add: v w1)
  from write_notes_rewrite [OF v(1) this] obtain v' where
    again: "write_notes e sp mp pre v = (Inr (), v')" ..
  have v': "files v' = put_notes e sp mp pre (files v)" "folders v' = folders v" "faults v' = []"
    using write_notes_success [OF v(1) again] by simp_all
  then have same: "files v' = files v"
    by (simp add: v w1 put_notes_twice)
  have b1: "files v' (filePath e sp mp s) = None"
    using blocked(1) by (simp add: same v(2))
  have b2: "filePath e sp mp s \<in> folders v'"
    using blocked(2) by (simp add: v'(2) v(3))
  have "write_file (filePath e sp mp s) (note_content s) v' = (Inl StorageError, v')"
    by (rule write_file_blocked [OF v'(3) b1 b2])
  then have "write_notes e sp mp ss v = (Inl StorageError, v')"
    by (simp add: ss write_notes_append again and_then_def)
  then show ?thesis
    using Inl err same v' by simp
qed

lemma write_notes_grows:
  assumes "faults w = []" "write_notes e sp mp ss w = (r, w')"
  shows "folders w' = folders w \<and> dom (files w) \<subseteq> dom (files w') \<and> faults w' = []"
proof (cases r)
  case (Inr u)
  then have "write_notes e sp mp ss w = (Inr (), w')" using assms(2) by simp
  from write_notes_success [OF assms(1) this] show ?thesis
    using put_notes_dom [of "files w" e sp mp ss] by simp
next
  case (Inl err)
  then have "write_notes e sp mp ss w = (Inl err, w')" using assms(2) by simp
  from write_notes_stops [OF assms(1) this] obtain pre where
    "write_notes e sp mp pre w = (Inr (), w')" by blast
  from write_notes_success [OF assms(1) this] show ?thesis
    using put_notes_dom [of "files w" e sp mp pre] by simp
qed

section \<open>The block of updateWatchlist\<close>

lemma ensure_folder_fields:
  "files (ensure_folder p w) = files w"
  "faults (ensure_folder p w) = faults w"
  "folders (ensure_folder p w) = folders w \<union> {q. q = p \<and> files w p = None}"
  "taken p (ensure_folder p w)"
  "taken q w \<Longrightarrow> taken q (ensure_folder p w)"
  by (auto simp: ensure_folder_def taken_def)

lemma taken_mono:
  "taken q w \<Longrightarrow> folders w \<subseteq> folders v \<Longrightarrow> dom (files w) \<subseteq> dom (files v) \<Longrightarrow> taken q v"
  by (auto simp: taken_def)

lemma try_nofault:
  assumes "faults w = []"
    and "sp = normalizePath e (folder @ ''/shows'')"
    and "mp = normalizePath e (folder @ ''/movies'')"
    and "sp \<noteq> mp \<or> taken sp w"
  shows "updateWatchlist_try e shows folder w
           = and_then (write_notes e sp mp shows (ensure_folder mp (ensure_folder sp w)))
               (\<lambda>_ w3. updateWatchFile e folder w3)"
proof -
  have f1: "faults (ensure_folder sp w) = []"
    using assms(1) by (simp add: ensure_folder_fields)
  have c1: "(if \<not> taken sp w then createFolder sp w else (Inr (), w))
              = (Inr (), ensure_folder sp w)"
    using assms(1) by (simp add: ensure_folder_def taken_def createFolder_nofault)
  have same: "taken mp (ensure_folder sp w) = taken mp w"
    using assms(4) by (auto simp: ensure_folder_def taken_def)
  have c2: "(if \<not> taken mp w then createFolder mp (ensure_folder sp w)
             else (Inr (), ensure_folder sp w))
              = (Inr (), ensure_folder mp (ensure_folder sp w))"
  proof (cases "taken mp w")
    case True
    then show ?thesis using same by (simp add: ensure_folder_def)
  next
    case False
    then have "\<not> taken mp (ensure_folder sp w)" using same by simp
    then show ?thesis
      using False f1 createFolder_nofault [of "ensure_folder sp w" mp]
      by (simp add: ensure_folder_def [of mp] taken_def)
  qed
  show ?thesis
    unfolding updateWatchlist_try_def Let_def assms(2,3) [symmetric]
    using c1 c2
    by (simp add: exists_both_nofault [OF assms(1)] and_then_def taken_def)
qed

lemma try_clash:
  assumes "faults w = []"
    and "sp = normalizePath e (folder @ ''/shows'')"
    and "mp = normalizePath e (folder @ ''/movies'')"
    and "sp = mp" "\<not> taken sp w"
  shows "fst (updateWatchlist_try e shows folder w) = Inl StorageError"
proof -
  have "createFolder sp w = (Inr (), emit (CreateFolder sp) (w\<lparr>folders := insert sp (folders w)\<rparr>))"
    using assms by (simp add: createFolder_nofault taken_def)
  moreover have "createFolder sp (emit (CreateFolder sp) (w\<lparr>folders := insert sp (folders w)\<rparr>))
      = (Inl StorageError, emit (CreateFolder sp) (w\<lparr>folders := insert sp (folders w)\<rparr>))"
    using assms(1) by (simp add: createFolder_taken)
  ultimately show ?thesis
    unfolding updateWatchlist_try_def Let_def assms(2,3) [symmetric]
    using assms(4,5)
    by (simp add: exists_both_nofault [OF assms(1)] and_then_def taken_def)
qed

lemma try_keeps_nofault:
  assumes nofault: "faults w = []"
    and sp: "sp = normalizePath e (folder @ ''/shows'')"
    and mp: "mp = normalizePath e (folder @ ''/movies'')"
    and pre: "sp \<noteq> mp \<or> taken sp w"
  shows "faults (snd (updateWatchlist_try e shows folder w)) = []"
proof -
  let ?wa = "ensure_folder mp (ensure_folder sp w)"
  let ?wp = "normalizePath e (folder @ ''/watch.md'')"
  have wa: "faults ?wa = []"
    using nofault by (simp add: ensure_folder_fields)
  obtain rl wb where loop: "write_notes e sp mp shows ?wa = (rl, wb)"
    by (cases "write_notes e sp mp shows ?wa")
  have wb: "faults wb = []"
    using write_notes_grows [OF wa loop] by simp
  have run: "updateWatchlist_try e shows folder w
               = and_then (rl, wb) (\<lambda>_ w3. write_file ?wp watchFileContent w3)"
    using try_nofault [OF nofault sp mp pre, of "shows"] loop
    by (simp add: updateWatchFile_def)
  show ?thesis
  proof (cases rl)
    case (Inl err)
    then show ?thesis using run wb by (simp add: and_then_def)
  next
    case (Inr u)
    obtain r w' where index: "write_file ?wp watchFileContent wb = (r, w')"
      by (cases "write_file ?wp watchFileContent wb")
    from write_file_outcome [OF wb index]
    have "faults w' = []"
    proof
      assume "r = Inl StorageError \<and> w' = wb \<and> files wb ?wp = None \<and> ?wp \<in> folders wb"
      then show ?thesis using wb by simp
    next
      assume "r = Inr () \<and> (files wb ?wp \<noteq> None \<or> ?wp \<notin> folders wb)"
      then have "write_file ?wp watchFileContent wb = (Inr (), w')" using index by simp
      from write_file_success(3) [OF wb this] show ?thesis .
    qed
    then show ?thesis using run Inr index by (simp add: and_then_def)
  qed
qed

lemma sync_succeeds:
  assumes nofault: "faults w = []"
    and sp: "sp = normalizePath e (folder @ ''/shows'')"
    and mp: "mp = normalizePath e (folder @ ''/movies'')"
    and wp: "wp = normalizePath e (folder @ ''/watch.md'')"
    and pre: "sp \<noteq> mp \<or> taken sp w"
    and targets: "\<forall>s \<in> set shows. files w (filePath e sp mp s) \<noteq> None
                  \<or> filePath e sp mp s \<notin> folders w \<union> {sp, mp}"
    and index: "files w wp \<noteq> None \<or> wp \<notin> folders w \<union> {sp, mp}"
    and w': "w' = snd (updateWatchlist e shows folder w)"
  shows "updateWatchlist_try e shows folder w = (Inr (), w')"
    and "files w' = (put_notes e sp mp shows (files w))(wp \<mapsto> watchFileContent)"
    and "folders w' = folders w \<union> {p \<in> {sp, mp}. files w p = None}"
    and "faults w' = []"
proof -
  let ?wa = "ensure_folder mp (ensure_folder sp w)"
  have wa: "faults ?wa = []" "files ?wa = files w"
    "folders ?wa = folders w \<union> {p \<in> {sp, mp}. files w p = None}"
    using nofault by (auto simp: ensure_folder_fields)
  have "\<forall>s \<in> set shows. files ?wa (filePath e sp mp s) \<noteq> None
           \<or> filePath e sp mp s \<notin> folders ?wa"
    using targets wa(2,3) by auto
  from write_notes_unblocked [OF wa(1) this] obtain wb where
    loop: "write_notes e sp mp shows ?wa = (Inr (), wb)" ..
  have wb: "files wb = put_notes e sp mp shows (files w)" "folders wb = folders ?wa"
    "faults wb = []"
    using write_notes_success [OF wa(1) loop] wa(2) by simp_all
  have "files w wp \<noteq> None \<longrightarrow> files wb wp \<noteq> None"
    using put_notes_defined [of "files w" wp e sp mp "shows"] by (simp add: wb(1))
  then have ok: "files wb wp \<noteq> None \<or> wp \<notin> folders wb"
    using index wb(2) wa(3) by auto
  let ?w' = "snd (write_file wp watchFileContent wb)"
  have res: "write_file wp watchFileContent wb = (Inr (), ?w')"
    using write_file_nofault(1) [OF wb(3) ok, of watchFileContent]
    by (cases "write_file wp watchFileContent wb") simp
  have tried: "updateWatchlist_try e shows folder w = (Inr (), ?w')"
    using try_nofault [OF nofault sp mp pre, of "shows"] loop res
    by (simp add: and_then_def updateWatchFile_def wp)
  then have same: "w' = ?w'"
    by (simp add: w' updateWatchlist_def)
  show "updateWatchlist_try e shows folder w = (Inr (), w')"
    using tried by (simp add: same)
  show "files w' = (put_notes e sp mp shows (files w))(wp \<mapsto> watchFileContent)"
    using write_file_nofault(2) [OF wb(3) ok, of watchFileContent] by (simp add: same wb(1))
  show "folders w' = folders w \<union> {p \<in> {sp, mp}. files w p = None}"
    using write_file_nofault(3) [OF wb(3) ok, of watchFileContent] by (simp add: same wb(2) wa(3))
  show "faults w' = []"
    using write_file_nofault(4) [OF wb(3) ok, of watchFileContent] by (simp add: same)
qed

lemma resync_after_success:
  assumes nofault: "faults w = []"
    and first: "updateWatchlist_try e shows folder w = (Inr (), w1)"
    and sp: "sp = normalizePath e (folder @ ''/shows'')"
    and mp: "mp = normalizePath e (folder @ ''/movies'')"
    and wp: "wp = normalizePath e (folder @ ''/watch.md'')"
    and w2: "w2 = snd (updateWatchlist e shows folder w1)"
  shows "updateWatchlist e shows folder w = (Inr (), w1)
         \<and> updateWatchlist_try e shows folder w1 = (Inr (), w2)
         \<and> files w2 = files w1 \<and> folders w2 = folders w1
         \<and> trace w2 = trace w1
              @ map (\<lambda>s. Modify (filePath e sp mp s) (note_content s)) shows
              @ [Modify wp watchFileContent]"
proof -
  let ?wa = "ensure_folder mp (ensure_folder sp w)"
  have pre: "sp \<noteq> mp \<or> taken sp w"
    using try_clash [OF nofault sp mp, of "shows"] first by auto
  have run1: "and_then (write_notes e sp mp shows ?wa) (\<lambda>_ w3. updateWatchFile e folder w3)
                = (Inr (), w1)"
    using try_nofault [OF nofault sp mp pre, of "shows"] first by simp
  obtain wb where loop1: "write_notes e sp mp shows ?wa = (Inr (), wb)"
    and index1: "write_file wp watchFileContent wb = (Inr (), w1)"
    using run1
    by (cases "write_notes e sp mp shows ?wa")
       (auto simp: and_then_def updateWatchFile_def wp split: sum.splits)
  have wa: "faults ?wa = []" "taken sp ?wa" "taken mp ?wa"
    using nofault by (simp_all add: ensure_folder_fields)
  have wb: "files wb = put_notes e sp mp shows (files ?wa)" "folders wb = folders ?wa"
    "faults wb = []"
    using write_notes_success [OF wa(1) loop1] by simp_all
  have w1: "files w1 = (files wb)(wp \<mapsto> watchFileContent)" "folders w1 = folders wb"
    "faults w1 = []"
    using write_file_success [OF wb(3) index1] by simp_all
  have keep: "taken q ?wa \<Longrightarrow> taken q w1" for q
    using put_notes_defined [of "files ?wa" q e sp mp "shows"]
    by (auto simp: taken_def w1 wb)
  have t1: "taken sp w1" "taken mp w1"
    using keep wa by simp_all
  have run2: "updateWatchlist_try e shows folder w1
                = and_then (write_notes e sp mp shows w1) (\<lambda>_ w3. updateWatchFile e folder w3)"
    using try_nofault [OF w1(3) sp mp, of "shows"] t1
    by (simp add: ensure_folder_def)
  have present: "\<forall>s \<in> set shows. files w1 (filePath e sp mp s) \<noteq> None"
    using put_notes_covers [of _ "shows" e sp mp "files ?wa"] by (simp add: w1 wb)
  obtain wc where loop2: "write_notes e sp mp shows w1 = (Inr (), wc)"
    using write_notes_rewrite [OF w1(3) present] by blast
  have wc: "files wc = put_notes e sp mp shows (files w1)" "folders wc = folders w1"
    "faults wc = []"
    using write_notes_success [OF w1(3) loop2] by simp_all
  have tc: "trace wc = trace w1 @ map (\<lambda>s. Modify (filePath e sp mp s) (note_content s)) shows"
    by (rule write_notes_rewrite_trace [OF w1(3) present loop2])
  have there: "files wc wp \<noteq> None"
    unfolding wc(1) by (rule put_notes_defined) (simp add: w1)
  then have ok: "files wc wp \<noteq> None \<or> wp \<notin> folders wc" ..
  let ?w2 = "snd (write_file wp watchFileContent wc)"
  have index2: "write_file wp watchFileContent wc = (Inr (), ?w2)"
    using write_file_nofault(1) [OF wc(3) ok, of watchFileContent]
    by (cases "write_file wp watchFileContent wc") simp
  have tried: "updateWatchlist_try e shows folder w1 = (Inr (), ?w2)"
    using run2 loop2 index2 by (simp add: and_then_def updateWatchFile_def wp)
  then have "updateWatchlist e shows folder w1 = (Inr (), ?w2)"
    by (simp add: updateWatchlist_def)
  then have same: "w2 = ?w2"
    by (simp add: w2)
  have once: "updateWatchlist e shows folder w = (Inr (), w1)"
    using first by (simp add: updateWatchlist_def)
  have "files ?w2 = files w1"
    using write_file_nofault(2) [OF wc(3) ok, of watchFileContent]
      rewrite_same [of e sp mp "shows" "files ?wa" wp watchFileContent]
    by (simp add: wc w1 wb)
  moreover have "folders ?w2 = folders w1"
    using write_file_nofault(3) [OF wc(3) ok, of watchFileContent] by (simp add: wc)
  moreover have "trace ?w2 = trace w1
      @ map (\<lambda>s. Modify (filePath e sp mp s) (note_content s)) shows
      @ [Modify wp watchFileContent]"
    using write_file_nofault(5) [OF wc(3) ok, of watchFileContent] there by (simp add: tc)
  ultimately show ?thesis
    unfolding same using once tried by (intro conjI)
qed

lemma sync_again:
  assumes nofault: "faults w = []"
    and sp: "sp = normalizePath e (folder @ ''/shows'')"
    and mp: "mp = normalizePath e (folder @ ''/movies'')"
    and wp: "wp = normalizePath e (folder @ ''/watch.md'')"
    and pre: "sp \<noteq> mp \<or> taken sp w"
    and first: "updateWatchlist_try e shows folder w = (r, w1)"
    and v: "faults v = []" "files v = files w1" "folders v = folders w1"
  shows "\<exists>v'. updateWatchlist_try e shows folder v = (r, v')
           \<and> files v' = files v \<and> folders v' = folders v"
proof -
  let ?wa = "ensure_folder mp (ensure_folder sp w)"
  have wa: "faults ?wa = []" "taken sp ?wa" "taken mp ?wa"
    using nofault by (simp_all add: ensure_folder_fields)
  obtain rl wb where loop1: "write_notes e sp mp shows ?wa = (rl, wb)"
    by (cases "write_notes e sp mp shows ?wa")
  have wb: "folders wb = folders ?wa" "dom (files ?wa) \<subseteq> dom (files wb)" "faults wb = []"
    using write_notes_grows [OF wa(1) loop1] by simp_all
  have run1: "and_then (write_notes e sp mp shows ?wa) (\<lambda>_ w3. write_file wp watchFileContent w3)
                = (r, w1)"
    using try_nofault [OF nofault sp mp pre, of "shows"] first
    by (simp add: updateWatchFile_def wp)
  have run2: "updateWatchlist_try e shows folder v
                = and_then (write_notes e sp mp shows v) (\<lambda>_ w3. write_file wp watchFileContent w3)"
    if "taken sp v" "taken mp v"
    using try_nofault [OF v(1) sp mp, of "shows"] that
    by (simp add: ensure_folder_def updateWatchFile_def wp)
  show ?thesis
  proof (cases rl)
    case (Inl err)
    then have w1: "r = Inl err" "w1 = wb"
      using run1 loop1 by (simp_all add: and_then_def)
    have v1: "files v = files wb" "folders v = folders wb"
      by (simp_all add: v w1)
    have up: "folders ?wa \<subseteq> folders v" "dom (files ?wa) \<subseteq> dom (files v)"
      using wb(1,2) by (simp_all add: v1)
    have tk: "taken sp v" "taken mp v"
      by (rule taken_mono [OF wa(2) up], rule taken_mono [OF wa(3) up])
    from write_notes_again [OF wa(1) loop1 v(1) v1] obtain v' where
      "write_notes e sp mp shows v = (rl, v')" "files v' = files v" "folders v' = folders v"
      by blast
    then have "updateWatchlist_try e shows folder v = (r, v')
           \<and> files v' = files v \<and> folders v' = folders v"
      using run2 [OF tk] Inl w1 by (simp add: and_then_def)
    then show ?thesis ..
  next
    case (Inr u)
    then have loop1': "write_notes e sp mp shows ?wa = (Inr (), wb)"
      using loop1 by simp
    have index1: "write_file wp watchFileContent wb = (r, w1)"
      using run1 loop1' by (simp add: and_then_def)
    have fb: "files wb = put_notes e sp mp shows (files ?wa)"
      using write_notes_success [OF wa(1) loop1'] by simp
    from write_file_outcome [OF wb(3) index1]
    show ?thesis
    proof
      assume blocked: "r = Inl StorageError \<and> w1 = wb \<and> files wb wp = None \<and> wp \<in> folders wb"
      have v1: "files v = files wb" "folders v = folders wb"
        using blocked by (simp_all add: v)
      have up: "folders ?wa \<subseteq> folders v" "dom (files ?wa) \<subseteq> dom (files v)"
        using wb(1,2) by (simp_all add: v1)
      have tk: "taken sp v" "taken mp v"
        by (rule taken_mono [OF wa(2) up], rule taken_mono [OF wa(3) up])
      from write_notes_again [OF wa(1) loop1' v(1) v1] obtain v' where
        v': "write_notes e sp mp shows v = (Inr (), v')" "files v' = files v"
        "folders v' = folders v" "faults v' = []"
        by blast
      have b1: "files v' wp = None" using blocked by (simp add: v'(2) v1)
      have b2: "wp \<in> folders v'" using blocked by (simp add: v'(3) v1)
      have "write_file wp watchFileContent v' = (Inl StorageError, v')"
        by (rule write_file_blocked [OF v'(4) b1 b2])
      then have "updateWatchlist_try e shows folder v = (r, v')
           \<and> files v' = files v \<and> folders v' = folders v"
        using run2 [OF tk] v' blocked by (simp add: and_then_def)
      then show ?thesis ..
    next
      assume went: "r = Inr () \<and> (files wb wp \<noteq> None \<or> wp \<notin> folders wb)"
      then have index1': "write_file wp watchFileContent wb = (Inr (), w1)"
        using index1 by simp
      have w1: "files w1 = (files wb)(wp \<mapsto> watchFileContent)" "folders w1 = folders wb"
        using write_file_success [OF wb(3) index1'] by simp_all
      have "dom (files wb) \<subseteq> dom (files v)"
        by (auto simp: v w1)
      then have up: "folders ?wa \<subseteq> folders v" "dom (files ?wa) \<subseteq> dom (files v)"
        using wb(1,2) by (simp_all add: v w1)
      have tk: "taken sp v" "taken mp v"
        by (rule taken_mono [OF wa(2) up], rule taken_mono [OF wa(3) up])
      have present: "\<forall>s \<in> set shows. files v (filePath e sp mp s) \<noteq> None"
        using put_notes_covers [of _ "shows" e sp mp "files ?wa"] by (simp add: v w1 fb)
      from write_notes_rewrite [OF v(1) present] obtain vc where
        loop2: "write_notes e sp mp shows v = (Inr (), vc)" ..
      have vc: "files vc = put_notes e sp mp shows (files v)" "folders vc = folders v"
        "faults vc = []"
        using write_notes_success [OF v(1) loop2] by simp_all
      have there: "files vc wp \<noteq> None"
        unfolding vc(1) by (rule put_notes_defined) (simp add: v w1)
      then have ok: "files vc wp \<noteq> None \<or> wp \<notin> folders vc" ..
      let ?v' = "snd (write_file wp watchFileContent vc)"
      have index2: "write_file wp watchFileContent vc = (Inr (), ?v')"
        using write_file_nofault(1) [OF vc(3) ok, of watchFileContent]
        by (cases "write_file wp watchFileContent vc") simp
      have "files ?v' = files v"
        using write_file_nofault(2) [OF vc(3) ok, of watchFileContent]
          rewrite_same [of e sp mp "shows" "files ?wa" wp watchFileContent]
        by (simp add: vc v w1 fb)
      moreover have "folders ?v' = folders v"
        using write_file_nofault(3) [OF vc(3) ok, of watchFileContent] by (simp add: vc)
      moreover have "updateWatchlist_try e shows folder v = (r, ?v')"
        using run2 [OF tk] loop2 index2 went by (simp add: and_then_def)
      ultimately have "updateWatchlist_try e shows folder v = (r, ?v')
           \<and> files ?v' = files v \<and> folders ?v' = folders v"
        by (intro conjI)
      then show ?thesis ..
    qed
  qed
qed

lemma three_syncs:
  assumes nofault: "faults w = []"
    and sp: "sp = normalizePath e (folder @ ''/shows'')"
    and mp: "mp = normalizePath e (folder @ ''/movies'')"
    and wp: "wp = normalizePath e (folder @ ''/watch.md'')"
    and distinct: "sp \<noteq> mp"
    and targets: "\<forall>s \<in> set (P1 @ P2 @ P3). files w (filePath e sp mp s) \<noteq> None
                  \<or> filePath e sp mp s \<notin> folders w \<union> {sp, mp}"
    and index: "files w wp \<noteq> None \<or> wp \<notin> folders w \<union> {sp, mp}"
    and w1: "w1 = snd (updateWatchlist e P1 folder (emit b1 (emit a1 w)))"
    and w2: "w2 = snd (updateWatchlist e P2 folder (emit b2 (emit a2 (emit c2 w1))))"
    and w3: "w3 = snd (updateWatchlist e P3 folder (emit b3 (emit a3 (emit c3 w2))))"
  shows "files w3 = (put_notes e sp mp (P1 @ P2 @ P3) (files w))(wp \<mapsto> watchFileContent)"
proof -
  let ?v1 = "emit b1 (emit a1 w)"
  let ?v2 = "emit b2 (emit a2 (emit c2 w1))"
  let ?v3 = "emit b3 (emit a3 (emit c3 w2))"
  have pre1: "sp \<noteq> mp \<or> taken sp ?v1" using distinct ..
  have pre2: "sp \<noteq> mp \<or> taken sp ?v2" using distinct ..
  have pre3: "sp \<noteq> mp \<or> taken sp ?v3" using distinct ..
  have n1: "\<forall>s \<in> set P1. files ?v1 (filePath e sp mp s) \<noteq> None
                  \<or> filePath e sp mp s \<notin> folders ?v1 \<union> {sp, mp}"
    using targets by simp
  have i1: "files ?v1 wp \<noteq> None \<or> wp \<notin> folders ?v1 \<union> {sp, mp}"
    using index by simp
  have f1: "faults ?v1 = []" using nofault by simp
  note s1 = sync_succeeds [OF f1 sp mp wp pre1 n1 i1 w1]
  have files1: "files w1 = (put_notes e sp mp P1 (files w))(wp \<mapsto> watchFileContent)"
    and folders1: "folders w1 \<subseteq> folders w \<union> {sp, mp}"
    using s1(2,3) by auto
  have grow1: "files w q \<noteq> None \<Longrightarrow> files w1 q \<noteq> None" for q
    using put_notes_defined [of "files w" q e sp mp P1] by (simp add: files1)
  have n2: "\<forall>s \<in> set P2. files ?v2 (filePath e sp mp s) \<noteq> None
                  \<or> filePath e sp mp s \<notin> folders ?v2 \<union> {sp, mp}"
    using targets grow1 folders1 by auto
  have i2: "files ?v2 wp \<noteq> None \<or> wp \<notin> folders ?v2 \<union> {sp, mp}"
    by (simp add: files1)
  have f2: "faults ?v2 = []" using s1(4) by simp
  note s2 = sync_succeeds [OF f2 sp mp wp pre2 n2 i2 w2]
  have files2: "files w2 = (put_notes e sp mp P2 (files w1))(wp \<mapsto> watchFileContent)"
    and folders2: "folders w2 \<subseteq> folders w \<union> {sp, mp}"
    using s2(2,3) folders1 by auto
  have grow2: "files w q \<noteq> None \<Longrightarrow> files w2 q \<noteq> None" for q
    using put_notes_defined [of "files w1" q e sp mp P2] grow1 [of q] by (simp add: files2)
  have n3: "\<forall>s \<in> set P3. files ?v3 (filePath e sp mp s) \<noteq> None
                  \<or> filePath e sp mp s \<notin> folders ?v3 \<union> {sp, mp}"
    using targets grow2 folders2 by auto
  have i3: "files ?v3 wp \<noteq> None \<or> wp \<notin> folders ?v3 \<union> {sp, mp}"
    by (simp add: files2)
  have f3: "faults ?v3 = []" using s2(4) by simp
  note s3 = sync_succeeds [OF f3 sp mp wp pre3 n3 i3 w3]
  have "files w3 = (put_notes e sp mp P3 (files w2))(wp \<mapsto> watchFileContent)"
    using s3(2) by simp
  also have "\<dots> = (put_notes e sp mp P3 (put_notes e sp mp P2 (files w1)))(wp \<mapsto> watchFileContent)"
    by (simp only: files2 put_notes_index)
  also have "\<dots> = (put_notes e sp mp (P2 @ P3) (files w1))(wp \<mapsto> watchFileContent)"
    by (simp only: put_notes_append)
  also have "\<dots> = (put_notes e sp mp (P2 @ P3) (put_notes e sp mp P1 (files w)))(wp \<mapsto> watchFileContent)"
    by (simp only: files1 put_notes_index)
  also have "\<dots> = (put_notes e sp mp (P1 @ P2 @ P3) (files w))(wp \<mapsto> watchFileContent)"
    by (simp only: put_notes_append)
  finally show ?thesis .
qed

section \<open>One page\<close>


lemma checkFeed_page_parse_fails:
  "fetch e u = Inr t \<Longrightarrow> parseFromString e t = Inl err \<Longrightarrow>
   checkFeed_page e st u w = (Inl err, emit (Fetch u) w)"
  by (simp add: checkFeed_page_def)

lemma checkFeed_page_parsed:
  assumes "fetch e u = Inr t" "parseFromString e t = Inr doc"
  shows "checkFeed_page e st u w
           = (Inr (nextUrl doc),
              snd (updateWatchlist e (page_entries e doc) (folderPath st)
                     (emit (count_line doc) (emit (Fetch u) w))))"
proof -
  obtain r w2 where upd: "updateWatchlist e (page_entries e doc) (folderPath st)
      (emit (count_line doc) (emit (Fetch u) w)) = (r, w2)"
    by (cases "updateWatchlist e (page_entries e doc) (folderPath st)
      (emit (count_line doc) (emit (Fetch u) w))")
  have "r = Inr ()"
    using updateWatchlist_returns [of e "page_entries e doc" "folderPath st"
        "emit (count_line doc) (emit (Fetch u) w)"] upd
    by simp
  then show ?thesis
    using assms upd by (simp add: checkFeed_page_def Let_def and_then_def)
qed


lemma nextUrl_nonempty: "nextUrl doc = Some u \<Longrightarrow> u \<noteq> []"
  by (auto simp: nextUrl_def split: option.splits if_splits)


section \<open>The run\<close>

lemmas checkFeed_unfold = checkFeed.simps

declare checkFeed.simps [simp del]

lemma currentUrl_Some: "u \<noteq> [] \<Longrightarrow> currentUrl st (Some u) = u"
  by (simp add: currentUrl_def)

lemma checkFeed_last:
  assumes "currentUrl st url = u" "u \<noteq> []" "checkFeed_page e st u w = (Inr None, w')"
  shows "checkFeed (Suc n) e st url w = Some (Inr (), w')"
  using assms by (simp add: checkFeed_unfold)

lemma checkFeed_raise:
  assumes "currentUrl st url = u" "u \<noteq> []" "checkFeed_page e st u w = (Inl err, w')"
  shows "checkFeed (Suc n) e st url w
           = Some (Inr (), emit (ConsoleError ''Error fetching or parsing RSS feed:'' err) w')"
  using assms by (simp add: checkFeed_unfold)

lemma checkFeed_returns:
  "checkFeed n e st url w = None \<or> (\<exists>w'. checkFeed n e st url w = Some (Inr (), w'))"
proof (cases n)
  case 0
  then show ?thesis by (simp add: checkFeed_unfold)
next
  case (Suc k)
  then show ?thesis
    by (auto simp: checkFeed_unfold Let_def split: prod.splits sum.splits option.splits)
qed

lemma checkFeed_next:
  assumes "currentUrl st url = u" "u \<noteq> []" "checkFeed_page e st u w = (Inr (Some v), w')"
    and "checkFeed n e st (Some v) (emit (next_line v) w') = Some (r, w'')"
  shows "checkFeed (Suc n) e st url w = Some (Inr (), w'')"
proof -
  have "r = Inr ()"
    using checkFeed_returns [of n e st "Some v" "emit (next_line v) w'"]
      assms(4) by auto
  then show ?thesis using assms by (simp add: checkFeed_unfold)
qed

section \<open>What a failed store call leaves\<close>






section \<open>Evaluating the examples\<close>

lemmas store_defs =
  exists_both_def adapter_exists_def createFolder_def getAbstractFileByPath_def create_def
  modify_def tick_def emit_def and_then_def write_file_def updateWatchFile_def
  updateWatchlist_try_def updateWatchlist_def Let_def

lemmas path_defs =
  filePath_def targetFolderPath_def toLowerCase_def toLowerCase_unit_def upper_letters_def
  lower_letters_def replace_illegal_def illegal_class_def host_normalizePath_def
  is_separator_def

lemmas page_defs =
  page_entries_def doc_querySelectorAll_def doc_querySelector_def querySelector_def
  read_item_def text_of_def nextUrl_def dune_item_def severance_item_def alien_item_def

lemma next_one: "nextUrl page_one = Some ''feed?page=2''"
  by (simp add: page_defs page_one_def)

lemma next_two: "nextUrl page_two = Some ''feed?page=3''"
  by (simp add: page_defs page_two_def)

lemma next_three: "nextUrl page_three = None"
  by (simp add: page_defs page_three_def)

section \<open>C1: what raises stays inside the run; an error status raises nothing\<close>




section \<open>C2: pages are fetched and synchronized in order\<close>

text \<open>
  C2. Let the configured address serve a page that links to a second, which links to a
  third, which has no next link. Then a run with a bound of three calls or more returns
  normally, and its final state is obtained by requesting the first page, synchronizing
  its entries with \<open>updateWatchlist\<close>, then requesting the second page in the state that
  left, synchronizing its entries, and likewise the third: exactly three requests, in
  this order, each page synchronized before the next is requested. When moreover the store
  does not fail on its own, the two folder paths differ and no target path is a folder,
  the files of the vault at the end are those obtained by writing the notes of the entries
  of the three pages, concatenated in feed order, and then the index.
\<close>

theorem three_pages_in_order:
  assumes start: "feedUrl st = u1" "u1 \<noteq> []"
    and p1: "fetch e u1 = Inr t1" "parseFromString e t1 = Inr d1" "nextUrl d1 = Some u2"
    and p2: "fetch e u2 = Inr t2" "parseFromString e t2 = Inr d2" "nextUrl d2 = Some u3"
    and p3: "fetch e u3 = Inr t3" "parseFromString e t3 = Inr d3" "nextUrl d3 = None"
    and w1: "w1 = snd (updateWatchlist e (page_entries e d1) (folderPath st)
                         (emit (count_line d1) (emit (Fetch u1) w)))"
    and w2: "w2 = snd (updateWatchlist e (page_entries e d2) (folderPath st)
                         (emit (count_line d2) (emit (Fetch u2) (emit (next_line u2) w1))))"
    and w3: "w3 = snd (updateWatchlist e (page_entries e d3) (folderPath st)
                         (emit (count_line d3) (emit (Fetch u3) (emit (next_line u3) w2))))"
  shows "checkFeed (Suc (Suc (Suc n))) e st None w = Some (Inr (), w3)
         \<and> requests w3 = requests w @ [u1, u2, u3]
         \<and> (faults w = []
              \<and> sp = normalizePath e (folderPath st @ ''/shows'')
              \<and> mp = normalizePath e (folderPath st @ ''/movies'')
              \<and> wp = normalizePath e (folderPath st @ ''/watch.md'')
              \<and> sp \<noteq> mp
              \<and> (\<forall>s \<in> set (page_entries e d1 @ page_entries e d2 @ page_entries e d3).
                    files w (filePath e sp mp s) \<noteq> None
                    \<or> filePath e sp mp s \<notin> folders w \<union> {sp, mp})
              \<and> (files w wp \<noteq> None \<or> wp \<notin> folders w \<union> {sp, mp})
            \<longrightarrow> files w3
                  = (put_notes e sp mp
                       (page_entries e d1 @ page_entries e d2 @ page_entries e d3) (files w))
                    (wp \<mapsto> watchFileContent))"
proof -
  have u2: "u2 \<noteq> []" and u3: "u3 \<noteq> []"
    using p1(3) p2(3) nextUrl_nonempty by blast+
  have page1: "checkFeed_page e st u1 w = (Inr (Some u2), w1)"
    using checkFeed_page_parsed [OF p1(1,2), of st w] by (simp add: p1(3) w1)
  have page2: "checkFeed_page e st u2 (emit (next_line u2) w1) = (Inr (Some u3), w2)"
    using checkFeed_page_parsed [OF p2(1,2), of st "emit (next_line u2) w1"]
    by (simp add: p2(3) w2)
  have page3: "checkFeed_page e st u3 (emit (next_line u3) w2) = (Inr None, w3)"
    using checkFeed_page_parsed [OF p3(1,2), of st "emit (next_line u3) w2"]
    by (simp add: p3(3) w3)
  have run3: "checkFeed (Suc n) e st (Some u3) (emit (next_line u3) w2) = Some (Inr (), w3)"
    by (rule checkFeed_last [OF currentUrl_Some [OF u3] u3 page3])
  have run2: "checkFeed (Suc (Suc n)) e st (Some u2) (emit (next_line u2) w1) = Some (Inr (), w3)"
    by (rule checkFeed_next [OF currentUrl_Some [OF u2] u2 page2 run3])
  have cur: "currentUrl st None = u1"
    by (simp add: currentUrl_def start(1))
  have run1: "checkFeed (Suc (Suc (Suc n))) e st None w = Some (Inr (), w3)"
    by (rule checkFeed_next [OF cur start(2) page1 run2])
  have reqs: "requests w3 = requests w @ [u1, u2, u3]"
    by (simp add: w1 w2 w3 requests_updateWatchlist count_line_def next_line_def)
  have written: "faults w = []
              \<and> sp = normalizePath e (folderPath st @ ''/shows'')
              \<and> mp = normalizePath e (folderPath st @ ''/movies'')
              \<and> wp = normalizePath e (folderPath st @ ''/watch.md'')
              \<and> sp \<noteq> mp
              \<and> (\<forall>s \<in> set (page_entries e d1 @ page_entries e d2 @ page_entries e d3).
                    files w (filePath e sp mp s) \<noteq> None
                    \<or> filePath e sp mp s \<notin> folders w \<union> {sp, mp})
              \<and> (files w wp \<noteq> None \<or> wp \<notin> folders w \<union> {sp, mp})
            \<longrightarrow> files w3
                  = (put_notes e sp mp
                       (page_entries e d1 @ page_entries e d2 @ page_entries e d3) (files w))
                    (wp \<mapsto> watchFileContent)"
  proof (intro impI, elim conjE)
    assume "faults w = []"
      and "sp = normalizePath e (folderPath st @ ''/shows'')"
      and "mp = normalizePath e (folderPath st @ ''/movies'')"
      and "wp = normalizePath e (folderPath st @ ''/watch.md'')"
      and "sp \<noteq> mp"
      and "\<forall>s \<in> set (page_entries e d1 @ page_entries e d2 @ page_entries e d3).
             files w (filePath e sp mp s) \<noteq> None
             \<or> filePath e sp mp s \<notin> folders w \<union> {sp, mp}"
      and "files w wp \<noteq> None \<or> wp \<notin> folders w \<union> {sp, mp}"
    then show "files w3
                  = (put_notes e sp mp
                       (page_entries e d1 @ page_entries e d2 @ page_entries e d3) (files w))
                    (wp \<mapsto> watchFileContent)"
      by (rule three_syncs [OF _ _ _ _ _ _ _ w1 w2 w3])
  qed
  show ?thesis
    by (intro conjI) (fact run1, fact reqs, fact written)
qed

text \<open>The example feed of three pages, into an empty vault under \<open>plex\<close>.\<close>

theorem three_pages_in_order_witness:
  "map_option fst (checkFeed 3 example_env plex_settings None empty_vault) = Some (Inr ())
   \<and> map_option (requests \<circ> snd) (checkFeed 3 example_env plex_settings None empty_vault)
       = Some [''feed'', ''feed?page=2'', ''feed?page=3'']
   \<and> map_option (dom \<circ> files \<circ> snd) (checkFeed 3 example_env plex_settings None empty_vault)
       = Some {''plex/movies/Dune_ Part Two.md'', ''plex/shows/Severance.md'',
               ''plex/movies/Alien.md'', ''plex/watch.md''}"
proof -
  have given: "feedUrl plex_settings = ''feed''" "''feed'' \<noteq> []"
    "fetch example_env ''feed'' = Inr ''one''" "parseFromString example_env ''one'' = Inr page_one"
    "fetch example_env ''feed?page=2'' = Inr ''two''"
    "parseFromString example_env ''two'' = Inr page_two"
    "fetch example_env ''feed?page=3'' = Inr ''three''"
    "parseFromString example_env ''three'' = Inr page_three"
    by (simp_all add: plex_settings_def example_env_def)
  have paths: "normalizePath example_env (folderPath plex_settings @ ''/shows'') = ''plex/shows''"
    "normalizePath example_env (folderPath plex_settings @ ''/movies'') = ''plex/movies''"
    "normalizePath example_env (folderPath plex_settings @ ''/watch.md'') = ''plex/watch.md''"
    by (simp_all add: example_env_def plex_settings_def path_defs)
  have clear: "faults empty_vault = []" "''plex/shows'' \<noteq> ''plex/movies''"
    "\<forall>s \<in> set (page_entries example_env page_one @ page_entries example_env page_two
               @ page_entries example_env page_three).
        files empty_vault (filePath example_env ''plex/shows'' ''plex/movies'' s) \<noteq> None
        \<or> filePath example_env ''plex/shows'' ''plex/movies'' s
            \<notin> folders empty_vault \<union> {''plex/shows'', ''plex/movies''}"
    "files empty_vault ''plex/watch.md'' \<noteq> None
     \<or> ''plex/watch.md'' \<notin> folders empty_vault \<union> {''plex/shows'', ''plex/movies''}"
    by (simp_all add: empty_vault_def page_defs page_one_def page_two_def page_three_def
        path_defs example_env_def)
  have written: "dom ((put_notes example_env ''plex/shows'' ''plex/movies''
        (page_entries example_env page_one @ page_entries example_env page_two
         @ page_entries example_env page_three) (files empty_vault))
        (''plex/watch.md'' \<mapsto> watchFileContent))
      = {''plex/movies/Dune_ Part Two.md'', ''plex/shows/Severance.md'',
         ''plex/movies/Alien.md'', ''plex/watch.md''}"
    by (simp add: empty_vault_def page_defs page_one_def page_two_def page_three_def
        path_defs example_env_def insert_commute)
  from three_pages_in_order [OF given(1,2,3,4) next_one given(5,6) next_two given(7,8)
      next_three refl refl refl, where w = empty_vault and n = 0
      and sp = "''plex/shows''" and mp = "''plex/movies''" and wp = "''plex/watch.md''"]
    paths clear written
  show ?thesis
    by (simp add: numeral_3_eq_3 requests_def empty_vault_def)
qed

section \<open>C3: a second synchronization changes nothing\<close>

text \<open>
  C3. Let the store not fail on its own, and let the two folder paths differ or the first
  be taken already. Run \<open>updateWatchlist\<close> on a list of entries and a root path, and run it
  again on the same list and path in the state the first run left. Then the second run
  leaves every file with the content the first run gave it, creates no file and no folder,
  and ends as the first did; when the first run raised nothing, the second consists of
  one \<open>modify\<close> per entry, in order, and one of the index, and of nothing else.
\<close>

theorem resync_changes_nothing:
  assumes nofault: "faults w = []"
    and sp: "sp = normalizePath e (folder @ ''/shows'')"
    and mp: "mp = normalizePath e (folder @ ''/movies'')"
    and wp: "wp = normalizePath e (folder @ ''/watch.md'')"
    and pre: "sp \<noteq> mp \<or> taken sp w"
    and w1: "w1 = snd (updateWatchlist e shows folder w)"
    and w2: "w2 = snd (updateWatchlist e shows folder w1)"
  shows "files w2 = files w1 \<and> folders w2 = folders w1
         \<and> fst (updateWatchlist_try e shows folder w1) = fst (updateWatchlist_try e shows folder w)
         \<and> (fst (updateWatchlist_try e shows folder w) = Inr ()
              \<longrightarrow> trace w2 = trace w1
                    @ map (\<lambda>s. Modify (filePath e sp mp s) (note_content s)) shows
                    @ [Modify wp watchFileContent])"
proof -
  obtain r wt where first: "updateWatchlist_try e shows folder w = (r, wt)"
    by (cases "updateWatchlist_try e shows folder w")
  have v: "faults w1 = []" "files w1 = files wt" "folders w1 = folders wt"
    using try_keeps_nofault [OF nofault sp mp pre, of "shows"] first
    by (simp_all add: w1 updateWatchlist_state)
  from sync_again [OF nofault sp mp wp pre first v] obtain v' where
    again: "updateWatchlist_try e shows folder w1 = (r, v')"
    and same: "files v' = files w1" "folders v' = folders w1"
    by blast
  have a: "files w2 = files w1"
    using again same(1) by (simp add: w2 updateWatchlist_state)
  have b: "folders w2 = folders w1"
    using again same(2) by (simp add: w2 updateWatchlist_state)
  have c: "fst (updateWatchlist_try e shows folder w1) = fst (updateWatchlist_try e shows folder w)"
    using again first by simp
  have d: "fst (updateWatchlist_try e shows folder w) = Inr ()
           \<longrightarrow> trace w2 = trace w1
                 @ map (\<lambda>s. Modify (filePath e sp mp s) (note_content s)) shows
                 @ [Modify wp watchFileContent]"
  proof
    assume "fst (updateWatchlist_try e shows folder w) = Inr ()"
    then have "updateWatchlist_try e shows folder w = (Inr (), w1)"
      unfolding w1 by (rule updateWatchlist_success)
    from resync_after_success [OF nofault this sp mp wp w2]
    show "trace w2 = trace w1
            @ map (\<lambda>s. Modify (filePath e sp mp s) (note_content s)) shows
            @ [Modify wp watchFileContent]"
      by simp
  qed
  show ?thesis
    by (intro conjI) (fact a, fact b, fact c, fact d)
qed

text \<open>Two entries of the example feed, twice, into an empty vault under \<open>plex\<close>.\<close>

theorem resync_changes_nothing_witness:
  "files (snd (updateWatchlist example_env example_entries ''plex''
                 (snd (updateWatchlist example_env example_entries ''plex'' empty_vault))))
     = files (snd (updateWatchlist example_env example_entries ''plex'' empty_vault))
   \<and> folders (snd (updateWatchlist example_env example_entries ''plex''
                 (snd (updateWatchlist example_env example_entries ''plex'' empty_vault))))
     = folders (snd (updateWatchlist example_env example_entries ''plex'' empty_vault))
   \<and> dom (files (snd (updateWatchlist example_env example_entries ''plex'' empty_vault)))
     = {''plex/movies/Dune_ Part Two.md'', ''plex/shows/Severance.md'', ''plex/watch.md''}
   \<and> trace (snd (updateWatchlist example_env example_entries ''plex''
                 (snd (updateWatchlist example_env example_entries ''plex'' empty_vault))))
     = trace (snd (updateWatchlist example_env example_entries ''plex'' empty_vault))
       @ [Modify ''plex/movies/Dune_ Part Two.md''
            (note_content (read_item example_env dune_item)),
          Modify ''plex/shows/Severance.md''
            (note_content (read_item example_env severance_item)),
          Modify ''plex/watch.md'' watchFileContent]"
proof -
  have paths: "normalizePath example_env (''plex'' @ ''/shows'') = ''plex/shows''"
    "normalizePath example_env (''plex'' @ ''/movies'') = ''plex/movies''"
    "normalizePath example_env (''plex'' @ ''/watch.md'') = ''plex/watch.md''"
    by (simp_all add: example_env_def path_defs)
  have ok: "fst (updateWatchlist_try example_env example_entries ''plex'' empty_vault) = Inr ()"
    by (simp add: store_defs path_defs page_defs example_entries_def example_env_def
        empty_vault_def)
  have nofault: "faults empty_vault = []"
    by (simp add: empty_vault_def)
  have distinct: "''plex/shows'' \<noteq> ''plex/movies'' \<or> taken ''plex/shows'' empty_vault"
    by simp
  have present: "dom (files (snd (updateWatchlist example_env example_entries ''plex''
                    empty_vault)))
     = {''plex/movies/Dune_ Part Two.md'', ''plex/shows/Severance.md'', ''plex/watch.md''}"
    by (simp add: store_defs path_defs page_defs example_entries_def example_env_def
        empty_vault_def insert_commute)
  have targets: "map (\<lambda>s. Modify (filePath example_env ''plex/shows'' ''plex/movies'' s)
                            (note_content s)) example_entries
      = [Modify ''plex/movies/Dune_ Part Two.md'' (note_content (read_item example_env dune_item)),
         Modify ''plex/shows/Severance.md''
           (note_content (read_item example_env severance_item))]"
    by (simp add: example_entries_def path_defs page_defs example_env_def)
  from resync_changes_nothing [OF nofault paths [symmetric] distinct refl refl,
      where ?shows = example_entries] ok
  show ?thesis
    using present by (simp add: targets)
qed

section \<open>C4: the poster of an entry can be null\<close>

text \<open>
  C4. The claim fails on the code for the poster. The other eight fields are read with
  \<open>?.textContent ?? ""\<close> and are strings; the poster is what \<open>getAttribute("url")\<close> returns
  when a thumbnail element is present, with no default, so an item whose thumbnail has no
  \<open>url\<close> attribute gives a null poster, and the front matter of its note reads
  \<open>poster: null\<close>.
\<close>

theorem poster_can_be_null:
  "poster (read_item example_env thumbnail_without_url) = None
   \<and> note_content (read_item example_env thumbnail_without_url)
       = ''---'' @ nl @ ''title: Alien'' @ nl @ ''link: '' @ nl @ ''pubDate: '' @ nl
         @ ''description: '' @ nl @ ''category: '' @ nl @ ''poster: null'' @ nl
         @ ''keywords: '' @ nl @ ''rating: '' @ nl @ ''guid: '' @ nl @ ''year: NaN'' @ nl
         @ ''---'' @ nl"
  by (simp add: page_defs thumbnail_without_url_def example_env_def note_content_def
      nullable_to_string_def number_to_string_def)

section \<open>C5: an empty feed address stops the run, an empty root folder does not\<close>

text \<open>
  C5, as the code has it. \<open>checkFeed\<close> tests the address only. With an empty feed address
  and no address argument, a run returns at once and leaves the state, requests, console
  and vault as they were.
\<close>

theorem empty_feed_url_noop:
  assumes "feedUrl st = []"
  shows "checkFeed (Suc n) e st None w = Some (Inr (), w)"
  using assms by (simp add: checkFeed_unfold currentUrl_def)

theorem empty_feed_url_noop_witness:
  "checkFeed 1 example_env DEFAULT_SETTINGS None empty_vault = Some (Inr (), empty_vault)"
proof -
  have "feedUrl DEFAULT_SETTINGS = []"
    by (simp add: DEFAULT_SETTINGS_def)
  from empty_feed_url_noop [OF this, where n = 0 and e = example_env and w = empty_vault]
  show ?thesis by simp
qed

text \<open>
  C5 as stated fails for the root folder: with a feed address and an empty root folder
  path, the run requests the feed and creates the two folders, a note and the index at
  the root of the vault.
\<close>

theorem empty_folder_path_still_syncs:
  "folderPath root_settings = []
   \<and> checkFeed 1 example_env root_settings None empty_vault \<noteq> Some (Inr (), empty_vault)
   \<and> map_option (requests \<circ> snd) (checkFeed 1 example_env root_settings None empty_vault)
       = Some [''feed?page=3'']
   \<and> map_option (folders \<circ> snd) (checkFeed 1 example_env root_settings None empty_vault)
       = Some {''shows'', ''movies''}
   \<and> map_option (dom \<circ> files \<circ> snd) (checkFeed 1 example_env root_settings None empty_vault)
       = Some {''movies/Alien.md'', ''watch.md''}"
proof -
  have fetched: "fetch example_env ''feed?page=3'' = Inr ''three''"
    and parsed: "parseFromString example_env ''three'' = Inr page_three"
    by (simp_all add: example_env_def)
  have last: "nextUrl page_three = None"
    by (simp add: page_defs page_three_def)
  let ?w = "snd (updateWatchlist example_env (page_entries example_env page_three)
                   (folderPath root_settings)
                   (emit (count_line page_three) (emit (Fetch ''feed?page=3'') empty_vault)))"
  have page: "checkFeed_page example_env root_settings ''feed?page=3'' empty_vault
                = (Inr None, ?w)"
    using checkFeed_page_parsed [OF fetched parsed, of root_settings empty_vault]
    by (simp add: last)
  have run: "checkFeed 1 example_env root_settings None empty_vault = Some (Inr (), ?w)"
    using checkFeed_last [OF _ _ page, of None 0]
    by (simp add: currentUrl_def root_settings_def)
  have req: "requests ?w = [''feed?page=3'']"
    by (simp add: requests_updateWatchlist count_line_def) (simp add: requests_def empty_vault_def)
  have fol: "folders ?w = {''shows'', ''movies''}"
    by (simp add: store_defs path_defs page_defs page_three_def example_env_def
        root_settings_def empty_vault_def insert_commute)
  have fil: "dom (files ?w) = {''movies/Alien.md'', ''watch.md''}"
    by (simp add: store_defs path_defs page_defs page_three_def example_env_def
        root_settings_def empty_vault_def insert_commute)
  have ne: "?w \<noteq> empty_vault"
  proof
    assume "?w = empty_vault"
    then have "folders ?w = folders empty_vault" by (rule arg_cong)
    then have "{''shows'', ''movies''} = folders empty_vault" by (simp only: fol)
    then show False by (simp add: empty_vault_def)
  qed
  have root: "folderPath root_settings = []"
    by (simp add: root_settings_def)
  show ?thesis
    unfolding run using ne root req fol fil by simp
qed

section \<open>C6: a page that cannot be parsed\<close>

text \<open>
  Were the parser to raise on the text of the requested page, the run would print the
  error and return after that single request, with no file and no folder touched and
  nothing else requested.
\<close>

lemma raised_parse_error_is_caught:
  assumes "currentUrl st url = u" "u \<noteq> []"
    and "fetch e u = Inr t" "parseFromString e t = Inl err"
    and "w' = emit (ConsoleError ''Error fetching or parsing RSS feed:'' err) (emit (Fetch u) w)"
  shows "checkFeed (Suc n) e st url w = Some (Inr (), w')
         \<and> trace w' = trace w @ [Fetch u, ConsoleError ''Error fetching or parsing RSS feed:'' err]
         \<and> requests w' = requests w @ [u]
         \<and> files w' = files w \<and> folders w' = folders w"
proof -
  have "checkFeed (Suc n) e st url w = Some (Inr (), w')"
    unfolding assms(5)
    by (rule checkFeed_raise [OF assms(1,2) checkFeed_page_parse_fails [OF assms(3,4)]])
  then show ?thesis by (simp add: assms(5))
qed

text \<open>
  C6. The claim fails on the code. The platform's parser does not raise on a text it
  cannot parse: it answers with an error document, and \<open>checkFeed\<close> never looks for one.
  It reads the error document as a page with no item: the run prints the count 0 and no
  error, and goes on to \<open>updateWatchlist\<close>, which creates the two folders and writes the
  index. Nothing is raised, so nothing is surfaced and the run does not abort.
\<close>

theorem malformed_page_is_read_as_empty:
  "fetch example_env ''broken'' = Inr ''<rss''
   \<and> parseFromString example_env ''<rss'' = Inr parser_error_document
   \<and> map_option fst (checkFeed 1 example_env broken_settings None empty_vault) = Some (Inr ())
   \<and> map_option (trace \<circ> snd) (checkFeed 1 example_env broken_settings None empty_vault)
     = Some [Fetch ''broken'', ConsoleLog ''Number of items in the RSS feed: 0'',
             CreateFolder ''plex/shows'', CreateFolder ''plex/movies'',
             Create ''plex/watch.md'' [], Modify ''plex/watch.md'' watchFileContent]"
proof -
  have fetched: "fetch example_env ''broken'' = Inr ''<rss''"
    and parsed: "parseFromString example_env ''<rss'' = Inr parser_error_document"
    by (simp_all add: example_env_def)
  have last: "nextUrl parser_error_document = None"
    by (simp add: page_defs parser_error_document_def)
  have none: "page_entries example_env parser_error_document = []"
    by (simp add: page_defs parser_error_document_def)
  have count: "count_line parser_error_document
                 = ConsoleLog ''Number of items in the RSS feed: 0''"
    by (simp add: count_line_def page_defs parser_error_document_def show_nat.simps)
  let ?w = "snd (updateWatchlist example_env [] ''plex''
                   (emit (ConsoleLog ''Number of items in the RSS feed: 0'')
                      (emit (Fetch ''broken'') empty_vault)))"
  have page: "checkFeed_page example_env broken_settings ''broken'' empty_vault
                = (Inr None, ?w)"
    using checkFeed_page_parsed [OF fetched parsed, of broken_settings empty_vault]
    by (simp add: last none count broken_settings_def)
  have run: "checkFeed 1 example_env broken_settings None empty_vault = Some (Inr (), ?w)"
    using checkFeed_last [OF _ _ page, of None 0]
    by (simp add: currentUrl_def broken_settings_def)
  have "trace ?w
     = [Fetch ''broken'', ConsoleLog ''Number of items in the RSS feed: 0'',
        CreateFolder ''plex/shows'', CreateFolder ''plex/movies'',
        Create ''plex/watch.md'' [], Modify ''plex/watch.md'' watchFileContent]"
    by (simp add: store_defs path_defs example_env_def empty_vault_def)
  then show ?thesis
    unfolding run using fetched parsed by simp
qed

section \<open>C7: the index queries a fixed folder\<close>

text \<open>
  C7. The index is created when absent and overwritten with a template that no entry
  changes, but the query in the template names the folder \<open>plex/movies\<close> whatever the root
  path is: synchronizing under \<open>media\<close> writes the note to \<open>media/movies\<close> and an index at
  \<open>media/watch.md\<close> that queries \<open>plex/movies\<close>, which the run never created.
\<close>

theorem index_query_is_fixed:
  "folders (snd (updateWatchlist example_env [read_item example_env alien_item] ''media''
                   empty_vault))
     = {''media/shows'', ''media/movies''}
   \<and> files (snd (updateWatchlist example_env [read_item example_env alien_item] ''media''
                   empty_vault)) ''media/movies/Alien.md''
     = Some (note_content (read_item example_env alien_item))
   \<and> files (snd (updateWatchlist example_env [read_item example_env alien_item] ''media''
                   empty_vault)) ''media/watch.md''
     = Some watchFileContent
   \<and> take 18 (drop 196 watchFileContent) = ''from '' @ [CHR 0x22] @ ''plex/movies'' @ [CHR 0x22]"
proof -
  have "take 18 (drop 196 watchFileContent) = ''from '' @ [CHR 0x22] @ ''plex/movies'' @ [CHR 0x22]"
    by (simp add: watchFileContent_def nl_def)
  then show ?thesis
    by (simp add: store_defs path_defs page_defs example_env_def empty_vault_def insert_commute)
qed

section \<open>C8: classification\<close>

lemma lower_unit_movie:
  "(toLowerCase_unit a = CHR ''m'') = same_letter a (CHR ''m'')"
  "(toLowerCase_unit a = CHR ''o'') = same_letter a (CHR ''o'')"
  "(toLowerCase_unit a = CHR ''v'') = same_letter a (CHR ''v'')"
  "(toLowerCase_unit a = CHR ''i'') = same_letter a (CHR ''i'')"
  "(toLowerCase_unit a = CHR ''e'') = same_letter a (CHR ''e'')"
  by (auto simp: toLowerCase_unit_def same_letter_def upper_letters_def lower_letters_def
           split: if_splits)

lemma toLowerCase_movie:
  "(toLowerCase c = ''movie'') = equal_ignoring_case c ''movie''"
  by (auto simp: toLowerCase_def equal_ignoring_case_def list_all2_Cons2 lower_unit_movie)

lemma same_letter_movie:
  "same_letter a (CHR ''m'') = (a \<in> {CHR ''m'', CHR ''M''})"
  "same_letter a (CHR ''o'') = (a \<in> {CHR ''o'', CHR ''O''})"
  "same_letter a (CHR ''v'') = (a \<in> {CHR ''v'', CHR ''V''})"
  "same_letter a (CHR ''i'') = (a \<in> {CHR ''i'', CHR ''I''})"
  "same_letter a (CHR ''e'') = (a \<in> {CHR ''e'', CHR ''E''})"
  by (auto simp: same_letter_def upper_letters_def lower_letters_def)

text \<open>
  C8. The folder the program picks for an entry is the movies folder exactly when the
  specification's \<open>classify\<close> gives \<open>"movie"\<close>, and the shows folder otherwise. \<open>classify\<close>
  gives \<open>"movie"\<close> or \<open>"series"\<close>, and \<open>"movie"\<close> exactly for the categories of five letters
  m, o, v, i, e in either case; so \<open>Movie\<close> is a movie, and the empty category and
  \<open>Sitcom\<close> are series.
\<close>

theorem classification:
  "targetFolderPath sp mp s = (if classify_spec s = ''movie'' then mp else sp)
   \<and> classify_spec s \<in> {''movie'', ''series''}
   \<and> (classify_spec s = ''movie'')
       = (\<exists>a b c d e. category s = [a, b, c, d, e]
            \<and> a \<in> {CHR ''m'', CHR ''M''} \<and> b \<in> {CHR ''o'', CHR ''O''}
            \<and> c \<in> {CHR ''v'', CHR ''V''} \<and> d \<in> {CHR ''i'', CHR ''I''}
            \<and> e \<in> {CHR ''e'', CHR ''E''})
   \<and> classify_spec (s\<lparr>category := ''Movie''\<rparr>) = ''movie''
   \<and> classify_spec (s\<lparr>category := []\<rparr>) = ''series''
   \<and> classify_spec (s\<lparr>category := ''Sitcom''\<rparr>) = ''series''"
proof -
  have folder: "targetFolderPath sp mp s = (if classify_spec s = ''movie'' then mp else sp)"
    by (simp add: targetFolderPath_def classify_spec_def toLowerCase_movie)
  have range: "classify_spec s \<in> {''movie'', ''series''}"
    by (simp add: classify_spec_def)
  have spell: "(classify_spec s = ''movie'')
       = (\<exists>a b c d e. category s = [a, b, c, d, e]
            \<and> a \<in> {CHR ''m'', CHR ''M''} \<and> b \<in> {CHR ''o'', CHR ''O''}
            \<and> c \<in> {CHR ''v'', CHR ''V''} \<and> d \<in> {CHR ''i'', CHR ''I''}
            \<and> e \<in> {CHR ''e'', CHR ''E''})"
    unfolding same_letter_movie [symmetric]
    by (auto simp: classify_spec_def equal_ignoring_case_def list_all2_Cons2)
  have examples: "classify_spec (s\<lparr>category := ''Movie''\<rparr>) = ''movie''"
    "classify_spec (s\<lparr>category := []\<rparr>) = ''series''"
    "classify_spec (s\<lparr>category := ''Sitcom''\<rparr>) = ''series''"
    by (simp_all add: classify_spec_def equal_ignoring_case_def same_letter_def
        upper_letters_def lower_letters_def)
  show ?thesis
    by (intro conjI) (fact folder, fact range, fact spell, fact examples(1), fact examples(2),
      fact examples(3))
qed

section \<open>C9: sanitization\<close>

lemma illegal_class_spec: "set illegal_class = spec_illegal"
  by (auto simp: illegal_class_def spec_illegal_def)

lemma underscore_legal: "CHR ''_'' \<notin> spec_illegal"
  by (simp add: spec_illegal_def)

text \<open>
  C9. The replacement keeps the length of the title; at every position a character of the
  specification's list becomes an underscore and any other character (whatever its code,
  so every unit of a non-ASCII character too) stays as it is. The result, and the file name
  made of it and the suffix \<open>.md\<close>, contain none of the listed characters, and replacing
  twice is the same as replacing once. The function is a total map over the title: it has
  no error result.
\<close>

theorem replace_illegal_correct:
  "length (replace_illegal t) = length t
   \<and> (\<forall>i < length t.
        replace_illegal t ! i = (if t ! i \<in> spec_illegal then CHR ''_'' else t ! i))
   \<and> set (replace_illegal t) \<inter> spec_illegal = {}
   \<and> set (replace_illegal t @ ''.md'') \<inter> spec_illegal = {}
   \<and> replace_illegal (replace_illegal t) = replace_illegal t"
proof -
  have len: "length (replace_illegal t) = length t"
    by (simp add: replace_illegal_def)
  have pointwise: "\<forall>i < length t.
      replace_illegal t ! i = (if t ! i \<in> spec_illegal then CHR ''_'' else t ! i)"
    by (simp add: replace_illegal_def illegal_class_spec)
  have clean: "set (replace_illegal t) \<inter> spec_illegal = {}"
    using underscore_legal by (auto simp: replace_illegal_def illegal_class_spec)
  have suffix: "set ''.md'' \<inter> spec_illegal = {}"
    by (simp add: spec_illegal_def)
  have name: "set (replace_illegal t @ ''.md'') \<inter> spec_illegal = {}"
    using clean suffix by (simp add: Int_Un_distrib2)
  have idem: "replace_illegal (replace_illegal t) = replace_illegal t"
    using underscore_legal by (simp add: replace_illegal_def illegal_class_spec)
  from len pointwise clean name idem show ?thesis by blast
qed

theorem replace_illegal_correct_witness:
  "replace_illegal ''a/b:c?.\<newline>'' = ''a_b_c_.\<newline>''
   \<and> replace_illegal ''a/b:c?.\<newline>'' ! 1 = CHR ''_''
   \<and> replace_illegal ''a/b:c?.\<newline>'' ! 2 = CHR ''b''"
proof -
  have v: "replace_illegal ''a/b:c?.\<newline>'' = ''a_b_c_.\<newline>''"
    by (simp add: replace_illegal_def illegal_class_def)
  have m: "(1::nat) < length ''a/b:c?.\<newline>''" "(2::nat) < length ''a/b:c?.\<newline>''"
    by simp_all
  have "CHR ''/'' \<in> spec_illegal" "CHR ''b'' \<notin> spec_illegal"
    by (simp_all add: spec_illegal_def)
  with m replace_illegal_correct [of "''a/b:c?.\<newline>''"] v show ?thesis
    by simp
qed

section \<open>C10: an empty list still makes the folders and the index\<close>

text \<open>
  C10. Let the store not fail on its own, the two folder paths differ, and the index path
  not be a folder. Then \<open>updateWatchlist\<close> with no entries raises nothing, each of the two
  folders is there afterwards when nothing was at its path, and the index file holds the
  template, whatever it held before; no other file changes.
\<close>

theorem empty_list_still_syncs:
  assumes nofault: "faults w = []"
    and sp: "sp = normalizePath e (folder @ ''/shows'')"
    and mp: "mp = normalizePath e (folder @ ''/movies'')"
    and wp: "wp = normalizePath e (folder @ ''/watch.md'')"
    and distinct: "sp \<noteq> mp"
    and index: "files w wp \<noteq> None \<or> wp \<notin> folders w \<union> {sp, mp}"
    and w': "w' = snd (updateWatchlist e [] folder w)"
  shows "updateWatchlist_try e [] folder w = (Inr (), w')
         \<and> updateWatchlist e [] folder w = (Inr (), w')
         \<and> folders w' = folders w \<union> {p \<in> {sp, mp}. files w p = None}
         \<and> files w' = (files w)(wp \<mapsto> watchFileContent)"
proof -
  have pre: "sp \<noteq> mp \<or> taken sp w" using distinct ..
  have none: "\<forall>s \<in> set []. files w (filePath e sp mp s) \<noteq> None
                \<or> filePath e sp mp s \<notin> folders w \<union> {sp, mp}"
    by simp
  note run = sync_succeeds [OF nofault sp mp wp pre none index w']
  have "updateWatchlist e [] folder w = (Inr (), w')"
    using run(1) by (simp add: updateWatchlist_def)
  moreover have "files w' = (files w)(wp \<mapsto> watchFileContent)"
    using run(2) by simp
  ultimately show ?thesis
    using run(1,3) by (intro conjI)
qed

theorem empty_list_still_syncs_witness:
  "updateWatchlist example_env [] ''plex'' empty_vault
     = (Inr (), snd (updateWatchlist example_env [] ''plex'' empty_vault))
   \<and> folders (snd (updateWatchlist example_env [] ''plex'' empty_vault))
       = {''plex/shows'', ''plex/movies''}
   \<and> files (snd (updateWatchlist example_env [] ''plex'' empty_vault))
       = [''plex/watch.md'' \<mapsto> watchFileContent]"
proof -
  have paths: "normalizePath example_env (''plex'' @ ''/shows'') = ''plex/shows''"
    "normalizePath example_env (''plex'' @ ''/movies'') = ''plex/movies''"
    "normalizePath example_env (''plex'' @ ''/watch.md'') = ''plex/watch.md''"
    by (simp_all add: example_env_def path_defs)
  have "faults empty_vault = []" "''plex/shows'' \<noteq> ''plex/movies''"
    "files empty_vault ''plex/watch.md'' \<noteq> None
     \<or> ''plex/watch.md'' \<notin> folders empty_vault \<union> {''plex/shows'', ''plex/movies''}"
    by (simp_all add: empty_vault_def)
  from empty_list_still_syncs [OF this(1) paths [symmetric] this(2,3) refl]
  have "updateWatchlist example_env [] ''plex'' empty_vault
     = (Inr (), snd (updateWatchlist example_env [] ''plex'' empty_vault))"
   "folders (snd (updateWatchlist example_env [] ''plex'' empty_vault))
       = folders empty_vault \<union> {p \<in> {''plex/shows'', ''plex/movies''}. files empty_vault p = None}"
   "files (snd (updateWatchlist example_env [] ''plex'' empty_vault))
       = (files empty_vault)(''plex/watch.md'' \<mapsto> watchFileContent)"
    by simp_all
  moreover have "folders empty_vault \<union> {p \<in> {''plex/shows'', ''plex/movies''}. files empty_vault p = None}
      = {''plex/shows'', ''plex/movies''}"
    by (auto simp: empty_vault_def)
  moreover have "files empty_vault = Map.empty"
    by (simp add: empty_vault_def)
  ultimately show ?thesis by simp
qed

end
